theory Spec2Isabelle
  imports Main
begin

section \<open>Strings\<close>

text \<open>
  JavaScript strings are modelled as \<open>string\<close> (lists of 8-bit characters), so the model
  covers ASCII text: \<open>toLowerCase\<close> maps \<open>A\<close>..\<open>Z\<close> to \<open>a\<close>..\<open>z\<close> and leaves every other
  character alone, and \<open>trim\<close> strips the ASCII white space characters.
\<close>

definition toLowerChar :: "char \<Rightarrow> char" where
  "toLowerChar c =
     (if 65 \<le> (of_char c :: nat) \<and> (of_char c :: nat) \<le> 90
      then char_of ((of_char c :: nat) + 32) else c)"

definition toLowerCase :: "string \<Rightarrow> string" where
  "toLowerCase s = map toLowerChar s"

text \<open>\<open>s.startsWith(t)\<close>\<close>

fun startsWith :: "string \<Rightarrow> string \<Rightarrow> bool" where
  "startsWith s [] = True"
| "startsWith [] (c # t) = False"
| "startsWith (a # s) (c # t) = (a = c \<and> startsWith s t)"

text \<open>\<open>s.includes(t)\<close>: \<open>t\<close> occurs in \<open>s\<close> as a contiguous substring.\<close>

fun includesStr :: "string \<Rightarrow> string \<Rightarrow> bool" where
  "includesStr [] t = (t = [])"
| "includesStr (a # s) t = (startsWith (a # s) t \<or> includesStr s t)"

definition isSpace :: "char \<Rightarrow> bool" where
  "isSpace c = ((of_char c :: nat) = 32 \<or> (9 \<le> (of_char c :: nat) \<and> (of_char c :: nat) \<le> 13))"

definition trim :: "string \<Rightarrow> string" where
  "trim s = rev (dropWhile isSpace (rev (dropWhile isSpace s)))"

section \<open>Answer resolution\<close>

text \<open>
  \<open>SCREENING_ANSWERS\<close>, in the order \<open>Object.entries\<close> enumerates it (the order of the
  object literal: none of the keys is integer-like).
\<close>

definition SCREENING_ANSWERS :: "(string \<times> string) list" where
  "SCREENING_ANSWERS =
    [(''right to work'', ''Yes''),
     (''work in australia'', ''Yes''),
     (''australian citizen'', ''Yes''),
     (''visa'', ''Yes''),
     (''salary'', ''65000''),
     (''expected salary'', ''65000''),
     (''salary expectation'', ''65000''),
     (''years of experience'', ''2''),
     (''how many years'', ''2''),
     (''experience'', ''2''),
     (''notice period'', ''2 weeks''),
     (''available'', ''Immediately''),
     (''start date'', ''Immediately''),
     (''full time'', ''Yes''),
     (''part time'', ''Yes'')]"

text \<open>
  The loop \<open>for (const [key, val] of Object.entries(tbl)) if (q.includes(key.toLowerCase()))\<close>:
  the first entry, in enumeration order, whose lower-cased key occurs in \<open>q\<close>.
\<close>

definition firstMatch :: "string \<Rightarrow> (string \<times> string) list \<Rightarrow> (string \<times> string) option" where
  "firstMatch q tbl = find (\<lambda>(key, val). includesStr q (toLowerCase key)) tbl"

text \<open>
  \<open>options.find(o => o.toLowerCase().includes(val.toLowerCase()) ||
  val.toLowerCase().includes(o.toLowerCase()))\<close>
\<close>

definition matchOption :: "string \<Rightarrow> string list \<Rightarrow> string option" where
  "matchOption val options =
     find (\<lambda>o'. includesStr (toLowerCase o') (toLowerCase val)
               \<or> includesStr (toLowerCase val) (toLowerCase o')) options"

text \<open>
  \<open>findAnswer\<close>. The module-level \<open>savedAnswers\<close> object is passed in as the list of its
  entries. The result \<open>None\<close> is JavaScript's \<open>null\<close>. In \<open>match || options[0]\<close> an
  undefined or empty \<open>match\<close> is falsy, so the first option is returned.
\<close>

definition findAnswer :: "(string \<times> string) list \<Rightarrow> string \<Rightarrow> string list \<Rightarrow> string option" where
  "findAnswer saved questionText options =
     (let q = toLowerCase questionText in
      case firstMatch q saved of
        Some (key, val) \<Rightarrow> Some val
      | None \<Rightarrow>
         (case firstMatch q SCREENING_ANSWERS of
            Some (key, val) \<Rightarrow>
              (case options of
                 o0 # rest \<Rightarrow>
                   (case matchOption val options of
                      Some m \<Rightarrow> if m \<noteq> [] then Some m else Some o0
                    | None \<Rightarrow> Some o0)
               | [] \<Rightarrow> Some val)
          | None \<Rightarrow>
              if ''Yes'' \<in> set options \<and> ''No'' \<in> set options then Some ''Yes'' else None))"


text \<open>
  \<open>persistAnswer\<close> on the entries of \<open>savedAnswers\<close>. The assignment
  \<open>savedAnswers[question] = answer\<close> overwrites the value of an own key in place and
  appends a new key (insertion order; integer-like keys, which JavaScript enumerates first,
  are outside the model). \<open>savedAnswers\<close> is a plain object: for the key \<open>__proto__\<close>,
  when it is not an own key (the answers file can hold it, \<open>JSON.parse\<close> defines it as an own
  property), the assignment reaches the setter inherited from \<open>Object.prototype\<close>, which
  ignores a string, and no entry is stored. The write of the answers file is wrapped in
  \<open>try { } catch {}\<close> and has no effect on the program state.
\<close>

fun putEntry :: "string \<Rightarrow> string \<Rightarrow> (string \<times> string) list \<Rightarrow> (string \<times> string) list" where
  "putEntry k v [] = [(k, v)]"
| "putEntry k v ((k', v') # es) =
     (if k' = k then (k, v) # es else (k', v') # putEntry k v es)"

definition setProperty :: "string \<Rightarrow> string \<Rightarrow> (string \<times> string) list \<Rightarrow> (string \<times> string) list" where
  "setProperty k v es =
     (if k = ''__proto__'' \<and> k \<notin> set (map fst es) then es else putEntry k v es)"

section \<open>The page as the scripts see it\<close>

text \<open>
  The scripts handed to \<open>page.evaluate\<close> read the live DOM. A page is the list of its
  elements in document order together with \<open>document.body.innerText\<close>; an element carries
  the attributes and properties the scripts read: \<open>tagName\<close> is the local name, in lower
  case, that selectors match; \<open>typeProp\<close> is the \<open>type\<close> property; \<open>valueProp\<close> is the
  \<open>value\<close> property, empty where the element has none. \<open>innerControl\<close> is the position of the
  first descendant matching \<open>input, select, textarea\<close>, \<open>optionEls\<close> the
  (value, textContent) pairs of the descendant \<open>option\<close> elements, \<open>containerText\<close> the
  text of \<open>closest('label') || parentElement\<close>.
\<close>

record element =
  tagName :: string
  roleAttr :: "string option"
  typeProp :: string
  textContent :: string
  valueProp :: string
  hasDisabled :: bool
  forAttr :: "string option"
  elemId :: string
  innerControl :: "nat option"
  optionEls :: "(string \<times> string) list"
  containerText :: "string option"

record page =
  bodyInnerText :: string
  elements :: "element list"

text \<open>What a script does to the page besides returning a value.\<close>

datatype domAction =
    Click nat element
  | DispatchClick nat element
  | ScrollTo

record question =
  label :: string
  qtype :: string
  qid :: string
  options :: "string list"

definition getElementById :: "page \<Rightarrow> string \<Rightarrow> (nat \<times> element) option" where
  "getElementById pg i = find (\<lambda>(j, e). elemId e = i) (enumerate 0 (elements pg))"

text \<open>The completion check at the head of every step.\<close>

definition isDoneScript :: "page \<Rightarrow> bool \<times> domAction option" where
  "isDoneScript pg =
     (let body = toLowerCase (bodyInnerText pg) in
      (includesStr body ''application submitted'' \<or>
       includesStr body ''you've applied'' \<or>
       includesStr body ''successfully applied'' \<or>
       includesStr body ''thank you for applying'', None))"

definition skipCoverLetterScript :: "page \<Rightarrow> bool \<times> domAction option" where
  "skipCoverLetterScript pg =
     (let allEls = filter (\<lambda>(i, el). tagName el = ''label'' \<or> tagName el = ''button''
                              \<or> roleAttr el = Some ''button'') (enumerate 0 (elements pg));
          target = find (\<lambda>(i, el). let t = toLowerCase (textContent el) in
                      includesStr t ''don't include a cover letter'' \<or>
                      includesStr t ''don't attach'' \<or>
                      includesStr t ''no cover letter'' \<or>
                      includesStr t ''without cover'') allEls
      in case target of
           None \<Rightarrow> (False, None)
         | Some (i, el) \<Rightarrow>
            (case forAttr el of
               None \<Rightarrow> (True, Some (Click i el))
             | Some forId \<Rightarrow>
                 if forId = [] then (True, Some (Click i el))
                 else (case getElementById pg forId of
                         Some (j, radio) \<Rightarrow> (True, Some (Click j radio))
                       | None \<Rightarrow> (True, Some (Click i el)))))"

definition questionOf :: "page \<Rightarrow> element \<Rightarrow> question list" where
  "questionOf pg lbl =
     (let text = toLowerCase (trim (textContent lbl));
          forId = (case forAttr lbl of Some f \<Rightarrow> f | None \<Rightarrow> []);
          input = (if forId \<noteq> [] then map_option snd (getElementById pg forId)
                   else (case innerControl lbl of
                           Some j \<Rightarrow> if j < length (elements pg) then Some (elements pg ! j) else None
                         | None \<Rightarrow> None))
      in case input of
           None \<Rightarrow> []
         | Some inp \<Rightarrow>
            (let tag = toLowerCase (tagName inp);
                 inputType = toLowerCase (typeProp inp);
                 ty = (if tag = ''select'' then ''select''
                       else if inputType = ''radio'' then ''radio''
                       else if inputType = ''checkbox'' then ''checkbox''
                       else if tag = ''textarea'' then ''textarea''
                       else ''text'');
                 opts = (if ty = ''select''
                         then map (\<lambda>(v, t). trim t) (filter (\<lambda>(v, t). v \<noteq> []) (optionEls inp))
                         else [])
             in [\<lparr>label = text, qtype = ty, qid = elemId inp, options = opts\<rparr>]))"

definition extractQuestionsScript :: "page \<Rightarrow> question list \<times> domAction option" where
  "extractQuestionsScript pg =
     (concat (map (questionOf pg) (filter (\<lambda>el. tagName el = ''label'') (elements pg))), None)"

definition radioScript :: "string \<Rightarrow> page \<Rightarrow> unit \<times> domAction option" where
  "radioScript answerText pg =
     (let radios = filter (\<lambda>(i, el). tagName el = ''input'' \<and> typeProp el = ''radio'')
                     (enumerate 0 (elements pg))
      in case find (\<lambda>(i, el). case containerText el of
                      None \<Rightarrow> False
                    | Some ct \<Rightarrow> includesStr (toLowerCase ct) (toLowerCase answerText)) radios of
           Some (i, radio) \<Rightarrow> ((), Some (Click i radio))
         | None \<Rightarrow> ((), None))"

definition scrollScript :: "page \<Rightarrow> unit \<times> domAction option" where
  "scrollScript pg = ((), Some ScrollTo)"

text \<open>
  \<open>clickButtonByText\<close>: the first clickable element whose text equals or contains one of
  the search texts is looked up, and clicked when it has no \<open>disabled\<close> attribute.
\<close>

definition buttonText :: "element \<Rightarrow> string" where
  "buttonText el =
     toLowerCase (if trim (textContent el) \<noteq> [] then trim (textContent el) else valueProp el)"

definition clickButtonByTextScript :: "string list \<Rightarrow> page \<Rightarrow> bool \<times> domAction option" where
  "clickButtonByTextScript searchTexts pg =
     (let buttons = filter (\<lambda>(i, el). tagName el = ''button'' \<or> roleAttr el = Some ''button''
                              \<or> (tagName el = ''input'' \<and> typeProp el = ''submit''))
                      (enumerate 0 (elements pg))
      in case find (\<lambda>(i, el). \<exists>s \<in> set searchTexts.
                       buttonText el = s \<or> includesStr (buttonText el) s) buttons of
           Some (i, btn) \<Rightarrow>
             if \<not> hasDisabled btn then (True, Some (Click i btn)) else (False, None)
         | None \<Rightarrow> (False, None))"

text \<open>The submit script of step 5: a click event is dispatched on the first matching button.\<close>

definition submitScript :: "page \<Rightarrow> bool \<times> domAction option" where
  "submitScript pg =
     (let allBtns = filter (\<lambda>(i, el). tagName el = ''button'') (enumerate 0 (elements pg))
      in case find (\<lambda>(i, b). let text = toLowerCase (trim (textContent b)) in
                       includesStr text ''submit application'' \<or> text = ''submit'') allBtns of
           Some (i, submitBtn) \<Rightarrow> (True, Some (DispatchClick i submitBtn))
         | None \<Rightarrow> (False, None))"

definition confirmationShown :: "page \<Rightarrow> bool" where
  "confirmationShown pg =
     (let body = toLowerCase (bodyInnerText pg) in
      includesStr body ''application has been sent'' \<or>
      includesStr body ''keep it up'' \<or>
      includesStr body ''application submitted'' \<or>
      includesStr body ''you've applied'' \<or>
      includesStr body ''thank you for applying'' \<or>
      includesStr body ''you might also like'')"


section \<open>The browser and the program state\<close>

text \<open>
  A thrown \<open>Error\<close> with its \<open>message\<close>; a computation either returns a value or throws.
\<close>

datatype exn = Error (message: string)

datatype 'a result = Ok 'a | Throw exn

datatype selectBy = ByLabel | ByValue

text \<open>
  The browser is an external system: its state has an arbitrary type \<open>'b\<close>, and the driver
  says how each operation of the page-automation surface answers in a state and which state
  it leaves. \<open>drv_document\<close> is the page a script passed to \<open>page.evaluate\<close> sees (or the
  error \<open>evaluate\<close> rejects with); \<open>drv_domAction\<close> is the page's reaction to what the
  script does.
\<close>

record 'b driver =
  drv_goto :: "string \<Rightarrow> nat \<Rightarrow> 'b \<Rightarrow> unit result \<times> 'b"
  drv_waitForTimeout :: "nat \<Rightarrow> 'b \<Rightarrow> unit result \<times> 'b"
  drv_isVisible :: "string \<Rightarrow> nat \<Rightarrow> 'b \<Rightarrow> bool result \<times> 'b"
  drv_click :: "string \<Rightarrow> 'b \<Rightarrow> unit result \<times> 'b"
  drv_document :: "'b \<Rightarrow> page result \<times> 'b"
  drv_domAction :: "domAction \<Rightarrow> 'b \<Rightarrow> 'b"
  drv_selectOption :: "string \<Rightarrow> selectBy \<Rightarrow> string \<Rightarrow> 'b \<Rightarrow> unit result \<times> 'b"
  drv_fill :: "string \<Rightarrow> string \<Rightarrow> 'b \<Rightarrow> unit result \<times> 'b"
  drv_waitForFunction :: "(page \<Rightarrow> bool) \<Rightarrow> nat \<Rightarrow> 'b \<Rightarrow> unit result \<times> 'b"

datatype script =
    IsDone
  | SkipCoverLetter
  | ExtractQuestions
  | ClickRadio string string
  | ScrollToBottom
  | ClickButtonByText "string list"
  | ClickSubmit

text \<open>The lines written with \<open>console.log\<close>.\<close>

datatype logMsg =
    LogApplying string string
  | LogJobInfo string string string
  | LogClickingApply
  | LogNoApplyButton
  | LogStep nat
  | LogAlreadyConfirmed string
  | LogCoverLetterSkipped
  | LogAnswer string string
  | LogClickedContinue
  | LogSubmitClicked
  | LogWaitingConfirmation
  | LogConfirmed string
  | LogConfirmationNotDetected
  | LogNoActionableButton
  | LogCouldNotComplete string
  | LogTabClosed
  | LogError string

text \<open>
  Everything the controller does to the outside is recorded, in order: each call on the
  page object, each action a script performs on the DOM, each console line.
\<close>

datatype event =
    Goto string
  | WaitForTimeout nat
  | IsVisible string
  | LocatorClick string
  | Evaluate script
  | Dom script domAction
  | SelectOption string selectBy string
  | Fill string string
  | WaitForFunction nat
  | Console logMsg

record 'b world =
  browser :: 'b
  savedAnswers :: "(string \<times> string) list"
  trace :: "event list"

type_synonym ('b, 'a) prog = "'b world \<Rightarrow> 'a result \<times> 'b world"

definition ret :: "'a \<Rightarrow> ('b, 'a) prog" where
  "ret x w = (Ok x, w)"

text \<open>Sequencing of two awaited operations: a throw skips the rest.\<close>

definition bind :: "('b, 'a) prog \<Rightarrow> ('a \<Rightarrow> ('b, 'c) prog) \<Rightarrow> ('b, 'c) prog" where
  "bind p f w = (case p w of (Ok x, w') \<Rightarrow> f x w' | (Throw e, w') \<Rightarrow> (Throw e, w'))"

text \<open>\<open>try { p } catch (e) { h e }\<close>\<close>

definition tryCatch :: "('b, 'a) prog \<Rightarrow> (exn \<Rightarrow> ('b, 'a) prog) \<Rightarrow> ('b, 'a) prog" where
  "tryCatch p h w = (case p w of (Ok x, w') \<Rightarrow> (Ok x, w') | (Throw e, w') \<Rightarrow> h e w')"

definition record_event :: "event \<Rightarrow> 'b world \<Rightarrow> 'b world" where
  "record_event ev w = w\<lparr>trace := trace w @ [ev]\<rparr>"

definition consoleLog :: "logMsg \<Rightarrow> ('b, unit) prog" where
  "consoleLog m w = (Ok (), record_event (Console m) w)"

text \<open>A call on the page object: recorded, then answered by the driver.\<close>

definition pageCall :: "event \<Rightarrow> ('b \<Rightarrow> 'a result \<times> 'b) \<Rightarrow> ('b, 'a) prog" where
  "pageCall ev f w =
     (case f (browser w) of (r, b') \<Rightarrow> (r, (record_event ev w)\<lparr>browser := b'\<rparr>))"

definition goto :: "'b driver \<Rightarrow> string \<Rightarrow> nat \<Rightarrow> ('b, unit) prog" where
  "goto d u timeout = pageCall (Goto u) (drv_goto d u timeout)"

definition waitForTimeout :: "'b driver \<Rightarrow> nat \<Rightarrow> ('b, unit) prog" where
  "waitForTimeout d ms = pageCall (WaitForTimeout ms) (drv_waitForTimeout d ms)"

text \<open>\<open>locator.isVisible({ timeout }).catch(() => false)\<close>\<close>

definition isVisible :: "'b driver \<Rightarrow> string \<Rightarrow> nat \<Rightarrow> ('b, bool) prog" where
  "isVisible d sel timeout =
     tryCatch (pageCall (IsVisible sel) (drv_isVisible d sel timeout)) (\<lambda>e. ret False)"

definition click :: "'b driver \<Rightarrow> string \<Rightarrow> ('b, unit) prog" where
  "click d sel = pageCall (LocatorClick sel) (drv_click d sel)"

definition selectOption :: "'b driver \<Rightarrow> string \<Rightarrow> selectBy \<Rightarrow> string \<Rightarrow> ('b, unit) prog" where
  "selectOption d sel by' v = pageCall (SelectOption sel by' v) (drv_selectOption d sel by' v)"

definition fill :: "'b driver \<Rightarrow> string \<Rightarrow> string \<Rightarrow> ('b, unit) prog" where
  "fill d sel v = pageCall (Fill sel v) (drv_fill d sel v)"

definition waitForFunction :: "'b driver \<Rightarrow> (page \<Rightarrow> bool) \<Rightarrow> nat \<Rightarrow> ('b, unit) prog" where
  "waitForFunction d f timeout = pageCall (WaitForFunction timeout) (drv_waitForFunction d f timeout)"

text \<open>
  \<open>page.evaluate(script)\<close>: the script runs against the page the browser shows; what it
  does to the DOM is recorded and handed to the browser.
\<close>

definition evaluate :: "'b driver \<Rightarrow> script \<Rightarrow> (page \<Rightarrow> 'a \<times> domAction option) \<Rightarrow> ('b, 'a) prog" where
  "evaluate d s f w =
     (case drv_document d (browser w) of
        (Throw e, b') \<Rightarrow> (Throw e, (record_event (Evaluate s) w)\<lparr>browser := b'\<rparr>)
      | (Ok pg, b') \<Rightarrow>
          (case f pg of
             (r, None) \<Rightarrow> (Ok r, (record_event (Evaluate s) w)\<lparr>browser := b'\<rparr>)
           | (r, Some a) \<Rightarrow>
               (Ok r, (record_event (Dom s a) (record_event (Evaluate s) w))
                        \<lparr>browser := drv_domAction d a b'\<rparr>)))"

text \<open>Reading the module-level \<open>savedAnswers\<close>.\<close>

definition getSavedAnswers :: "('b, (string \<times> string) list) prog" where
  "getSavedAnswers w = (Ok (savedAnswers w), w)"

definition persistAnswer :: "string \<Rightarrow> string \<Rightarrow> ('b, unit) prog" where
  "persistAnswer q answer w = (Ok (), w\<lparr>savedAnswers := setProperty q answer (savedAnswers w)\<rparr>)"


section \<open>Screening questions\<close>

record job =
  title :: string
  company :: string
  location :: string
  workType :: string
  salary :: string
  url :: string
  applied :: bool
  appliedAt :: "string option"
  platform :: string
  keyword :: string

text \<open>The body of \<open>try { ... } catch { }\<close> that commits one answer, by input kind.\<close>

definition fillAnswer :: "'b driver \<Rightarrow> question \<Rightarrow> string \<Rightarrow> ('b, unit) prog" where
  "fillAnswer d q answer =
     (if qtype q = ''select'' then
        tryCatch (selectOption d (CHR ''#'' # qid q) ByLabel answer)
                 (\<lambda>e. selectOption d (CHR ''#'' # qid q) ByValue answer)
      else if qtype q = ''radio'' then
        evaluate d (ClickRadio (label q) answer) (radioScript answer)
      else if qtype q = ''text'' \<or> qtype q = ''textarea'' then
        (if qid q \<noteq> [] then
           bind (isVisible d (CHR ''#'' # qid q) 1000) (\<lambda>visible.
             if visible then fill d (CHR ''#'' # qid q) answer else ret ())
         else ret ())
      else ret ())"

text \<open>
  One pass of the loop \<open>for (const q of questions)\<close>. An empty label, and an answer that is
  \<open>null\<close> or empty, are falsy: the question is skipped.
\<close>

definition answerQuestion :: "'b driver \<Rightarrow> question \<Rightarrow> ('b, unit) prog" where
  "answerQuestion d q =
     (if label q = [] then ret ()
      else bind getSavedAnswers (\<lambda>saved.
        case findAnswer saved (label q) (options q) of
          None \<Rightarrow> ret ()
        | Some answer \<Rightarrow>
            if answer = [] then ret ()
            else bind (consoleLog (LogAnswer (label q) answer)) (\<lambda>_.
                 bind (persistAnswer (label q) answer) (\<lambda>_.
                 tryCatch (fillAnswer d q answer) (\<lambda>e. ret ())))))"

fun answerQuestions :: "'b driver \<Rightarrow> question list \<Rightarrow> ('b, unit) prog" where
  "answerQuestions d [] = ret ()"
| "answerQuestions d (q # qs) = bind (answerQuestion d q) (\<lambda>_. answerQuestions d qs)"

definition answerScreeningQuestions :: "'b driver \<Rightarrow> job \<Rightarrow> ('b, unit) prog" where
  "answerScreeningQuestions d jb =
     bind (evaluate d ExtractQuestions extractQuestionsScript) (\<lambda>questions.
       answerQuestions d questions)"

section \<open>The application flow controller\<close>

definition applySelectors :: "string list" where
  "applySelectors =
     [''[data-automation=\"job-detail-apply\"]'',
      ''button:has-text(\"Quick apply\")'',
      ''button:has-text(\"Apply\")'',
      ''a:has-text(\"Apply\")'']"

text \<open>The loop over the apply selectors; the result is the flag \<open>clicked\<close>.\<close>

fun clickApply :: "'b driver \<Rightarrow> string list \<Rightarrow> ('b, bool) prog" where
  "clickApply d [] = ret False"
| "clickApply d (sel # sels) =
     bind (isVisible d sel 3000) (\<lambda>visible.
       if visible then
         bind (consoleLog LogClickingApply) (\<lambda>_.
         bind (click d sel) (\<lambda>_.
         bind (waitForTimeout d 3000) (\<lambda>_. ret True)))
       else clickApply d sels)"

definition continueTexts :: "string list" where
  "continueTexts = [''continue'', ''next'', ''proceed'']"

definition clickButtonByText :: "'b driver \<Rightarrow> string list \<Rightarrow> ('b, bool) prog" where
  "clickButtonByText d texts = evaluate d (ClickButtonByText texts) (clickButtonByTextScript texts)"

text \<open>How one pass of the step loop ends: \<open>continue\<close>, \<open>break\<close>, or \<open>return b\<close>.\<close>

datatype loopCtl = Continue | Break | Return bool

text \<open>
  Parts 1 to 3 of a step: cover-letter skip, screening questions, scroll to the bottom.
\<close>

definition prepareStep :: "'b driver \<Rightarrow> job \<Rightarrow> ('b, unit) prog" where
  "prepareStep d jb =
     bind (evaluate d SkipCoverLetter skipCoverLetterScript) (\<lambda>skippedCL.
     bind (if skippedCL
           then bind (consoleLog LogCoverLetterSkipped) (\<lambda>_. waitForTimeout d 1500)
           else ret ()) (\<lambda>_.
     bind (answerScreeningQuestions d jb) (\<lambda>_.
     bind (evaluate d ScrollToBottom scrollScript) (\<lambda>_.
     waitForTimeout d 1500))))"

text \<open>
  Parts 4 and 5 of a step: continue first; submit only when no continue button was clicked.
  After the submit click the wait for a confirmation is inside \<open>try { } catch { }\<close>. The
  number is the one written in the call, \<open>page.waitForFunction(f, { timeout: 15000 })\<close>.
\<close>

definition advanceStep :: "'b driver \<Rightarrow> job \<Rightarrow> ('b, loopCtl) prog" where
  "advanceStep d jb =
     bind (clickButtonByText d continueTexts) (\<lambda>continued.
       if continued then
         bind (consoleLog LogClickedContinue) (\<lambda>_.
         bind (waitForTimeout d 2000) (\<lambda>_. ret Continue))
       else
         bind (evaluate d ClickSubmit submitScript) (\<lambda>submitClicked.
           if submitClicked then
             bind (consoleLog LogSubmitClicked) (\<lambda>_.
             bind (consoleLog LogWaitingConfirmation) (\<lambda>_.
             bind (tryCatch
                     (bind (waitForFunction d confirmationShown 15000) (\<lambda>_.
                        consoleLog (LogConfirmed (title jb))))
                     (\<lambda>e. consoleLog LogConfirmationNotDetected)) (\<lambda>_.
             ret (Return True))))
           else
             bind (consoleLog LogNoActionableButton) (\<lambda>_. ret Break)))"

definition stepBody :: "'b driver \<Rightarrow> job \<Rightarrow> nat \<Rightarrow> ('b, loopCtl) prog" where
  "stepBody d jb step =
     bind (waitForTimeout d 2000) (\<lambda>_.
     bind (consoleLog (LogStep step)) (\<lambda>_.
     bind (evaluate d IsDone isDoneScript) (\<lambda>isDone.
       if isDone then
         bind (consoleLog (LogAlreadyConfirmed (title jb))) (\<lambda>_. ret (Return True))
       else
         bind (prepareStep d jb) (\<lambda>_. advanceStep d jb))))"

text \<open>
  \<open>for (let step = 1; step <= 8; step++)\<close>. The result is \<open>Some b\<close> when the loop was left
  by \<open>return b\<close>, and \<open>None\<close> when it ended by \<open>break\<close> or by the step bound.
\<close>

function stepLoop :: "'b driver \<Rightarrow> job \<Rightarrow> nat \<Rightarrow> ('b, bool option) prog" where
  "stepLoop d jb step =
     (if step \<le> 8 then
        bind (stepBody d jb step) (\<lambda>ctl.
          case ctl of
            Continue \<Rightarrow> stepLoop d jb (step + 1)
          | Break \<Rightarrow> ret None
          | Return b \<Rightarrow> ret (Some b))
      else ret None)"
  by pat_completeness auto
termination
  by (relation "measure (\<lambda>(d, jb, step). 9 - step)") auto

declare stepLoop.simps [simp del]

text \<open>The body of the outer \<open>try\<close>.\<close>

definition applyAttempt :: "'b driver \<Rightarrow> job \<Rightarrow> ('b, bool) prog" where
  "applyAttempt d jb =
     bind (goto d (url jb) 60000) (\<lambda>_.
     bind (waitForTimeout d 2000) (\<lambda>_.
     bind (clickApply d applySelectors) (\<lambda>clicked.
       if \<not> clicked then
         bind (consoleLog LogNoApplyButton) (\<lambda>_. ret False)
       else
         bind (stepLoop d jb 1) (\<lambda>r.
           case r of
             Some b \<Rightarrow> ret b
           | None \<Rightarrow> bind (consoleLog (LogCouldNotComplete (title jb))) (\<lambda>_. ret False)))))"

text \<open>The \<open>catch (e)\<close> of the outer \<open>try\<close>: the message is classified, the result is \<open>false\<close>.\<close>

definition onError :: "exn \<Rightarrow> ('b, bool) prog" where
  "onError e =
     (let msg = message e in
      bind (if includesStr msg ''closed'' \<or> includesStr msg ''Target''
            then consoleLog LogTabClosed
            else consoleLog (LogError msg)) (\<lambda>_. ret False))"

definition applyToSeekJob :: "'b driver \<Rightarrow> job \<Rightarrow> ('b, bool) prog" where
  "applyToSeekJob d jb =
     bind (consoleLog (LogApplying (title jb) (company jb))) (\<lambda>_.
     bind (consoleLog (LogJobInfo (location jb) (workType jb) (salary jb))) (\<lambda>_.
     tryCatch (applyAttempt d jb) onError))"


section \<open>The job catalogue\<close>

text \<open>One scraped card, as the listing script of \<open>searchSeek\<close> returns it.\<close>

record rawJob =
  raw_title :: string
  raw_company :: string
  raw_location :: string
  raw_workType :: string
  raw_salary :: string
  raw_href :: string
  raw_keyword :: string

text \<open>The emoji of the work-type tags are written as their UTF-8 bytes.\<close>

definition classifyWorkType :: "string \<Rightarrow> string \<Rightarrow> string" where
  "classifyWorkType raw ttl =
     (let text = toLowerCase (raw @ '' '' @ ttl) in
      if includesStr text ''remote''
        then [CHR 0xF0, CHR 0x9F, CHR 0x8C, CHR 0x90] @ '' Remote''
      else if includesStr text ''hybrid''
        then [CHR 0xF0, CHR 0x9F, CHR 0x94, CHR 0x80] @ '' Hybrid''
      else if includesStr text ''on-site'' \<or> includesStr text ''onsite''
              \<or> includesStr text ''in office''
        then [CHR 0xF0, CHR 0x9F, CHR 0x8F, CHR 0xA2] @ '' On-site''
      else if raw \<noteq> [] then raw
      else [CHR 0xE2, CHR 0x9D, CHR 0x93] @ '' Not specified'')"

text \<open>
  \<open>j.href.startsWith('http') ? j.href : `https://www.seek.com.au${j.href}`\<close>
\<close>

definition jobUrl :: "string \<Rightarrow> string" where
  "jobUrl href = (if startsWith href ''http'' then href else ''https://www.seek.com.au'' @ href)"

definition newJob :: "rawJob \<Rightarrow> job" where
  "newJob j =
     \<lparr>title = raw_title j, company = raw_company j, location = raw_location j,
      workType = classifyWorkType (raw_workType j) (raw_title j), salary = raw_salary j,
      url = jobUrl (raw_href j), applied = False, appliedAt = None,
      platform = ''seek'', keyword = raw_keyword j\<rparr>"

text \<open>
  The loop \<open>for (const j of jobs)\<close> of \<open>searchSeek\<close> over one scraped page, on the state
  \<open>(seenUrls, allJobs)\<close>.
\<close>

fun addJobs :: "rawJob list \<Rightarrow> string set \<times> job list \<Rightarrow> string set \<times> job list" where
  "addJobs [] st = st"
| "addJobs (j # js) (seenUrls, allJobs) =
     (if jobUrl (raw_href j) \<in> seenUrls then addJobs js (seenUrls, allJobs)
      else addJobs js (insert (jobUrl (raw_href j)) seenUrls, allJobs @ [newJob j]))"

text \<open>
  What \<open>searchSeek\<close> returns when the result pages it visits, over all keywords and page
  numbers, are scraped as \<open>pages\<close>: both sets start empty and live across all pages.
\<close>

definition searchSeek :: "rawJob list list \<Rightarrow> job list" where
  "searchSeek pages = snd (fold addJobs pages ({}, []))"

text \<open>Step 3 of \<open>main\<close>: the merge of the stored catalogue with the fresh search result.\<close>

definition mergeJobs :: "job list \<Rightarrow> job list \<Rightarrow> job list" where
  "mergeJobs existingJobs freshJobs =
     (let existingUrls = set (map url existingJobs);
          newJobs = filter (\<lambda>j. url j \<notin> existingUrls) freshJobs
      in existingJobs @ newJobs)"

text \<open>
  The normalization the specification speaks of, written from its words (the program has no
  such function): letter case is folded and the scheme prefix is dropped.
\<close>

definition spec_normalizeUrl :: "string \<Rightarrow> string" where
  "spec_normalizeUrl u =
     (let l = toLowerCase u in
      if startsWith l ''https://'' then drop 8 l
      else if startsWith l ''http://'' then drop 7 l
      else l)"

section \<open>Observations on the trace\<close>

text \<open>
  The events the properties below speak of: the head line of a step, the call of
  \<open>clickButtonByText\<close> with the continue texts and the click it performs, the call of the
  submit script and the click it dispatches.
\<close>

fun isStepStart :: "event \<Rightarrow> bool" where
  "isStepStart (Console (LogStep n)) = True"
| "isStepStart ev = False"

fun isContinueAttempt :: "event \<Rightarrow> bool" where
  "isContinueAttempt (Evaluate (ClickButtonByText ts)) = (ts = continueTexts)"
| "isContinueAttempt ev = False"

fun isContinueClick :: "event \<Rightarrow> bool" where
  "isContinueClick (Dom (ClickButtonByText ts) a) = (ts = continueTexts)"
| "isContinueClick ev = False"

fun isSubmitAttempt :: "event \<Rightarrow> bool" where
  "isSubmitAttempt (Evaluate ClickSubmit) = True"
| "isSubmitAttempt ev = False"

text \<open>The two console lines that can follow the wait for a confirmation.\<close>

fun isConfirmationLog :: "logMsg \<Rightarrow> bool" where
  "isConfirmationLog (LogConfirmed t) = True"
| "isConfirmationLog LogConfirmationNotDetected = True"
| "isConfirmationLog m = False"

fun isSubmitClick :: "event \<Rightarrow> bool" where
  "isSubmitClick (Dom ClickSubmit a) = True"
| "isSubmitClick ev = False"

text \<open>The element an action of a script clicks, if any.\<close>

fun clickedElement :: "domAction \<Rightarrow> element option" where
  "clickedElement (Click i el) = Some el"
| "clickedElement (DispatchClick i el) = Some el"
| "clickedElement ScrollTo = None"

text \<open>
  The events of a step that are neither its head line nor part of the continue and submit
  triggers.
\<close>

definition quietEvent :: "event \<Rightarrow> bool" where
  "quietEvent ev \<longleftrightarrow> \<not> isStepStart ev \<and> \<not> isContinueAttempt ev \<and> \<not> isContinueClick ev
                     \<and> \<not> isSubmitAttempt ev \<and> \<not> isSubmitClick ev"

text \<open>The clickable elements, and the ones whose text matches a continue text.\<close>

definition isClickable :: "element \<Rightarrow> bool" where
  "isClickable el \<longleftrightarrow> tagName el = ''button'' \<or> roleAttr el = Some ''button''
                      \<or> (tagName el = ''input'' \<and> typeProp el = ''submit'')"

definition isContinueControl :: "element \<Rightarrow> bool" where
  "isContinueControl el \<longleftrightarrow>
     isClickable el \<and> list_ex (\<lambda>s. buttonText el = s \<or> includesStr (buttonText el) s) continueTexts"

text \<open>
  A page offers an enabled continue control, in the words of the specification: some
  continue control of the page has no \<open>disabled\<close> attribute.
\<close>

definition spec_offersEnabledContinue :: "page \<Rightarrow> bool" where
  "spec_offersEnabledContinue pg \<longleftrightarrow>
     list_ex (\<lambda>el. isContinueControl el \<and> \<not> hasDisabled el) (elements pg)"

text \<open>The first continue control of the page, in document order, has no \<open>disabled\<close> attribute.\<close>

definition firstContinueEnabled :: "page \<Rightarrow> bool" where
  "firstContinueEnabled pg \<longleftrightarrow>
     (case find isContinueControl (elements pg) of
        Some el \<Rightarrow> \<not> hasDisabled el
      | None \<Rightarrow> False)"

text \<open>
  How what a program appends to the trace relates to its result: \<open>emits p Q\<close> says that
  from every state \<open>p\<close> extends the trace by some events \<open>new\<close> with \<open>Q result new\<close>.
\<close>

definition emits :: "('b, 'a) prog \<Rightarrow> ('a result \<Rightarrow> event list \<Rightarrow> bool) \<Rightarrow> bool" where
  "emits p Q \<longleftrightarrow> (\<forall>w. \<exists>new. trace (snd (p w)) = trace w @ new \<and> Q (fst (p w)) new)"

text \<open>What \<open>advanceStep\<close> can do, as the events it appends and its result.\<close>

definition advanceOutcome :: "loopCtl result \<Rightarrow> event list \<Rightarrow> bool" where
  "advanceOutcome r n \<longleftrightarrow>
     (n = [Evaluate (ClickButtonByText continueTexts)] \<and> (\<exists>e. r = Throw e))
   \<or> (\<exists>i el. \<not> hasDisabled el
         \<and> n = [Evaluate (ClickButtonByText continueTexts),
                Dom (ClickButtonByText continueTexts) (Click i el),
                Console LogClickedContinue, WaitForTimeout 2000]
         \<and> (r = Ok Continue \<or> (\<exists>e. r = Throw e)))
   \<or> (n = [Evaluate (ClickButtonByText continueTexts), Evaluate ClickSubmit]
         \<and> (\<exists>e. r = Throw e))
   \<or> (\<exists>a c. n = [Evaluate (ClickButtonByText continueTexts), Evaluate ClickSubmit,
                  Dom ClickSubmit a, Console LogSubmitClicked, Console LogWaitingConfirmation,
                  WaitForFunction 15000, Console c]
         \<and> isConfirmationLog c \<and> r = Ok (Return True))
   \<or> (n = [Evaluate (ClickButtonByText continueTexts), Evaluate ClickSubmit,
            Console LogNoActionableButton]
         \<and> r = Ok Break)"

section \<open>Example data\<close>

definition exJob :: "string \<Rightarrow> bool \<Rightarrow> job" where
  "exJob u a =
     \<lparr>title = ''Developer'', company = ''Acme'', location = ''Sydney'',
      workType = ''Hybrid'', salary = ''Not listed'', url = u, applied = a,
      appliedAt = (if a then Some ''2024-01-01T00:00:00.000Z'' else None),
      platform = ''seek'', keyword = ''developer''\<rparr>"

definition exRaw :: "string \<Rightarrow> rawJob" where
  "exRaw h =
     \<lparr>raw_title = ''Developer'', raw_company = ''Acme'', raw_location = ''Sydney'',
      raw_workType = ''Hybrid'', raw_salary = ''Not listed'', raw_href = h,
      raw_keyword = ''developer''\<rparr>"

definition exButton :: "string \<Rightarrow> bool \<Rightarrow> element" where
  "exButton t dis =
     \<lparr>tagName = ''button'', roleAttr = None, typeProp = ''submit'', textContent = t,
      valueProp = [], hasDisabled = dis, forAttr = None, elemId = [], innerControl = None,
      optionEls = [], containerText = None\<rparr>"

definition exPage :: "element list \<Rightarrow> page" where
  "exPage els = \<lparr>bodyInnerText = ''Apply for Developer'', elements = els\<rparr>"

text \<open>
  A browser that always shows the page \<open>pg\<close>, answers \<open>gotoResult\<close> to a navigation, finds
  every locator visible, and never sees a confirmation (\<open>waitForFunction\<close> times out).
\<close>

definition exDriver :: "page \<Rightarrow> unit result \<Rightarrow> unit driver" where
  "exDriver pg gotoResult =
     \<lparr>drv_goto = (\<lambda>u t b. (gotoResult, b)),
      drv_waitForTimeout = (\<lambda>ms b. (Ok (), b)),
      drv_isVisible = (\<lambda>sel t b. (Ok True, b)),
      drv_click = (\<lambda>sel b. (Ok (), b)),
      drv_document = (\<lambda>b. (Ok pg, b)),
      drv_domAction = (\<lambda>a b. b),
      drv_selectOption = (\<lambda>sel by' v b. (Ok (), b)),
      drv_fill = (\<lambda>sel v b. (Ok (), b)),
      drv_waitForFunction = (\<lambda>f t b. (Throw (Error ''Timeout 15000ms exceeded''), b))\<rparr>"

text \<open>A \<open>select\<close> question with the options \<open>Yes\<close> and \<open>No\<close>.\<close>

definition exQuestion :: "string \<Rightarrow> question" where
  "exQuestion l = \<lparr>label = l, qtype = ''select'', qid = ''q1'', options = [''Yes'', ''No'']\<rparr>"

text \<open>
  A label without text, bound by \<open>for\<close> to a \<open>select\<close> with the options \<open>Yes\<close> and \<open>No\<close>.
\<close>

definition exEmptyLabel :: element where
  "exEmptyLabel =
     \<lparr>tagName = ''label'', roleAttr = None, typeProp = [], textContent = [],
      valueProp = [], hasDisabled = False, forAttr = Some ''q1'', elemId = [],
      innerControl = None, optionEls = [], containerText = None\<rparr>"

definition exSelect :: element where
  "exSelect =
     \<lparr>tagName = ''select'', roleAttr = None, typeProp = ''select-one'', textContent = ''YesNo'',
      valueProp = ''yes'', hasDisabled = False, forAttr = None, elemId = ''q1'',
      innerControl = None, optionEls = [(''yes'', ''Yes''), (''no'', ''No'')],
      containerText = None\<rparr>"

definition exWorld :: "unit world" where
  "exWorld = \<lparr>browser = (), savedAnswers = [], trace = []\<rparr>"

text \<open>What one pass of the step loop can do.\<close>

definition stepOutcome :: "nat \<Rightarrow> loopCtl result \<Rightarrow> event list \<Rightarrow> bool" where
  "stepOutcome step r n \<longleftrightarrow>
     (n = [WaitForTimeout 2000] \<and> (\<exists>e. r = Throw e))
   \<or> (\<exists>q adv. n = [WaitForTimeout 2000, Console (LogStep step), Evaluate IsDone] @ q @ adv
         \<and> list_all quietEvent q
         \<and> ((adv = [] \<and> (r = Ok (Return True) \<or> (\<exists>e. r = Throw e))) \<or> advanceOutcome r adv))"

text \<open>
  A summary of a run: at most \<open>k\<close> steps were started, at most \<open>k\<close> continue clicks were
  made, and a dispatched submit click means the result \<open>good\<close>.
\<close>

definition runOutcome :: "nat \<Rightarrow> bool \<Rightarrow> event list \<Rightarrow> bool" where
  "runOutcome k good n \<longleftrightarrow>
     length (filter isStepStart n) \<le> k \<and> length (filter isContinueClick n) \<le> k
     \<and> (list_ex isSubmitClick n \<longrightarrow> good)"

text \<open>\<open>yields p Q\<close>: from every state \<open>p\<close> returns, without throwing, a value with \<open>Q\<close>.\<close>

definition yields :: "('b, 'a) prog \<Rightarrow> ('a \<Rightarrow> bool) \<Rightarrow> bool" where
  "yields p Q \<longleftrightarrow> (\<forall>w. \<exists>x. fst (p w) = Ok x \<and> Q x)"

text \<open>
  The result is \<open>b\<close>, and exactly \<open>k\<close> steps were started and \<open>k\<close> continue clicks made.
\<close>

definition ceilingOutcome :: "nat \<Rightarrow> 'a \<Rightarrow> 'a result \<Rightarrow> event list \<Rightarrow> bool" where
  "ceilingOutcome k b r n \<longleftrightarrow>
     r = Ok b \<and> length (filter isStepStart n) = k \<and> length (filter isContinueClick n) = k"

text \<open>\<open>keepsSaved p\<close>: the program \<open>p\<close> leaves \<open>savedAnswers\<close> as it is.\<close>

definition keepsSaved :: "('b, 'a) prog \<Rightarrow> bool" where
  "keepsSaved p \<longleftrightarrow> (\<forall>w. savedAnswers (snd (p w)) = savedAnswers w)"

section \<open>Scenarios\<close>

text \<open>
  No navigation, wait, locator click or script evaluation fails, in any state of the
  browser.
\<close>

definition noPageErrors :: "'b driver \<Rightarrow> bool" where
  "noPageErrors d \<longleftrightarrow>
     (\<forall>u t b. \<exists>b'. drv_goto d u t b = (Ok (), b'))
   \<and> (\<forall>ms b. \<exists>b'. drv_waitForTimeout d ms b = (Ok (), b'))
   \<and> (\<forall>sel b. \<exists>b'. drv_click d sel b = (Ok (), b'))
   \<and> (\<forall>b. \<exists>pg b'. drv_document d b = (Ok pg, b'))"

text \<open>One of the apply selectors is visible, in any state of the browser.\<close>

definition applyTriggerVisible :: "'b driver \<Rightarrow> bool" where
  "applyTriggerVisible d \<longleftrightarrow>
     list_ex (\<lambda>sel. \<forall>b. \<exists>b'. drv_isVisible d sel 3000 b = (Ok True, b')) applySelectors"

text \<open>
  The form never shows a completion signal, and the first continue control of every page
  it shows is enabled.
\<close>

definition endlessContinueForm :: "'b driver \<Rightarrow> bool" where
  "endlessContinueForm d \<longleftrightarrow>
     (\<forall>b pg b'. drv_document d b = (Ok pg, b') \<longrightarrow>
        \<not> fst (isDoneScript pg) \<and> firstContinueEnabled pg)"

section \<open>Properties of the resolver\<close>

lemma firstMatch_None:
  "firstMatch q tbl = None \<longleftrightarrow> (\<forall>(k, v) \<in> set tbl. \<not> includesStr q (toLowerCase k))"
  by (auto simp: firstMatch_def find_None_iff)

lemma nth_mem_eq: "i < length xs \<Longrightarrow> xs ! i = x \<Longrightarrow> x \<in> set xs"
  by auto

lemma firstMatch_Some:
  "firstMatch q tbl = Some (k, v) \<Longrightarrow> (k, v) \<in> set tbl \<and> includesStr q (toLowerCase k)"
  by (auto simp: firstMatch_def find_Some_iff intro: nth_mem_eq)

text \<open>
  C4. A label whose lower-cased text contains a key of the learned cache and a key of the
  rule table is answered from the learned cache: the value of the first cache entry whose
  key occurs in the label is returned, whatever the options are.
\<close>

theorem findAnswer_learned_cache_first:
  assumes "(k, v) \<in> set saved"
    and "includesStr (toLowerCase questionText) (toLowerCase k)"
    and "(rk, rv) \<in> set SCREENING_ANSWERS"
    and "includesStr (toLowerCase questionText) (toLowerCase rk)"
  shows "\<exists>k' v'. firstMatch (toLowerCase questionText) saved = Some (k', v')
           \<and> (k', v') \<in> set saved
           \<and> includesStr (toLowerCase questionText) (toLowerCase k')
           \<and> findAnswer saved questionText opts = Some v'"
proof -
  from assms(1,2) have "firstMatch (toLowerCase questionText) saved \<noteq> None"
    by (auto simp: firstMatch_None)
  then obtain k' v' where fm: "firstMatch (toLowerCase questionText) saved = Some (k', v')"
    by (cases "firstMatch (toLowerCase questionText) saved") auto
  from firstMatch_Some [OF fm] fm show ?thesis
    by (simp add: findAnswer_def)
qed

theorem findAnswer_learned_cache_first_witness:
  "(''salary'', ''80000'') \<in> set [(''salary'', ''80000'')]
   \<and> includesStr (toLowerCase ''Expected Salary?'') (toLowerCase ''salary'')
   \<and> (''expected salary'', ''65000'') \<in> set SCREENING_ANSWERS
   \<and> findAnswer [(''salary'', ''80000'')] ''Expected Salary?'' [''60000'', ''65000''] = Some ''80000''"
proof -
  have a: "(''salary'', ''80000'') \<in> set [(''salary'', ''80000'')]" by simp
  have b: "includesStr (toLowerCase ''Expected Salary?'') (toLowerCase ''salary'')" by code_simp
  have c: "(''expected salary'', ''65000'') \<in> set SCREENING_ANSWERS"
    by (simp add: SCREENING_ANSWERS_def)
  have d: "includesStr (toLowerCase ''Expected Salary?'') (toLowerCase ''expected salary'')"
    by code_simp
  from findAnswer_learned_cache_first [OF a b c d, of "[''60000'', ''65000'']"]
  obtain k' v' where "(k', v') \<in> set [(''salary'', ''80000'')]"
    and "findAnswer [(''salary'', ''80000'')] ''Expected Salary?'' [''60000'', ''65000''] = Some v'"
    by blast
  then have "findAnswer [(''salary'', ''80000'')] ''Expected Salary?'' [''60000'', ''65000'']
               = Some ''80000''"
    by simp
  with a b c show ?thesis by blast
qed

text \<open>
  C10. When the label contains no key of the learned cache and no key of the rule table, and
  the option list contains the strings \<open>Yes\<close> and \<open>No\<close>, among any other options, the
  resolver returns \<open>Yes\<close>.
\<close>

theorem findAnswer_yes_default_on_containment:
  assumes "\<forall>(k, v) \<in> set saved. \<not> includesStr (toLowerCase questionText) (toLowerCase k)"
    and "\<forall>(k, v) \<in> set SCREENING_ANSWERS. \<not> includesStr (toLowerCase questionText) (toLowerCase k)"
    and "''Yes'' \<in> set opts" and "''No'' \<in> set opts"
  shows "findAnswer saved questionText opts = Some ''Yes''"
proof -
  have "firstMatch (toLowerCase questionText) saved = None"
    using assms(1) by (simp add: firstMatch_None)
  moreover have "firstMatch (toLowerCase questionText) SCREENING_ANSWERS = None"
    using assms(2) by (simp add: firstMatch_None)
  ultimately show ?thesis
    using assms(3,4) by (simp add: findAnswer_def)
qed

theorem findAnswer_yes_default_on_containment_witness:
  "findAnswer [(''salary'', ''80000'')] ''Are you over 18?'' [''Maybe'', ''No'', ''Yes'', ''Unsure'']
     = Some ''Yes''"
proof -
  have a: "\<forall>(k, v) \<in> set [(''salary'', ''80000'')].
             \<not> includesStr (toLowerCase ''Are you over 18?'') (toLowerCase k)"
    by code_simp
  have b: "\<forall>(k, v) \<in> set SCREENING_ANSWERS.
             \<not> includesStr (toLowerCase ''Are you over 18?'') (toLowerCase k)"
    by code_simp
  show ?thesis
    by (rule findAnswer_yes_default_on_containment [OF a b]) simp_all
qed

section \<open>Properties of the job catalogue\<close>

lemma addJobs_inv:
  "set (map url allJobs) = seenUrls \<Longrightarrow> distinct (map url allJobs) \<Longrightarrow>
   (case addJobs js (seenUrls, allJobs) of (seen', all') \<Rightarrow>
      set (map url all') = seen' \<and> distinct (map url all')
      \<and> seen' = seenUrls \<union> (\<lambda>j. jobUrl (raw_href j)) ` set js)"
proof (induction js arbitrary: seenUrls allJobs)
  case Nil
  then show ?case by simp
next
  case (Cons j js)
  show ?case
  proof (cases "jobUrl (raw_href j) \<in> seenUrls")
    case True
    with Cons.IH [OF Cons.prems] show ?thesis by (auto split: prod.splits)
  next
    case False
    have a: "set (map url (allJobs @ [newJob j])) = insert (jobUrl (raw_href j)) seenUrls"
      using Cons.prems(1) by (auto simp: newJob_def)
    have b: "distinct (map url (allJobs @ [newJob j]))"
      using Cons.prems False by (auto simp: newJob_def)
    from Cons.IH [OF a b] False show ?thesis by (auto split: prod.splits)
  qed
qed

lemma fold_addJobs_inv:
  "set (map url allJobs) = seenUrls \<Longrightarrow> distinct (map url allJobs) \<Longrightarrow>
   (case fold addJobs pages (seenUrls, allJobs) of (seen', all') \<Rightarrow>
      set (map url all') = seen' \<and> distinct (map url all')
      \<and> seen' = seenUrls \<union> (\<lambda>j. jobUrl (raw_href j)) ` set (concat pages))"
proof (induction pages arbitrary: seenUrls allJobs)
  case Nil
  then show ?case by simp
next
  case (Cons p pages)
  obtain s1 a1 where st: "addJobs p (seenUrls, allJobs) = (s1, a1)"
    by (cases "addJobs p (seenUrls, allJobs)")
  from addJobs_inv [OF Cons.prems, of p] st
  have i1: "set (map url a1) = s1" "distinct (map url a1)"
    and s1: "s1 = seenUrls \<union> (\<lambda>j. jobUrl (raw_href j)) ` set p" by auto
  from Cons.IH [OF i1] st s1 show ?case by (auto split: prod.splits)
qed

lemma searchSeek_urls:
  "distinct (map url (searchSeek pages)) \<and>
   set (map url (searchSeek pages)) = (\<lambda>j. jobUrl (raw_href j)) ` set (concat pages)"
  using fold_addJobs_inv [of "[]" "{}" pages]
  by (auto simp: searchSeek_def split: prod.splits)

lemma mergeJobs_distinct:
  "distinct (map url existing) \<Longrightarrow> distinct (map url fresh) \<Longrightarrow>
   distinct (map url (mergeJobs existing fresh))"
  by (auto simp: mergeJobs_def Let_def distinct_map_filter) (metis imageI)

text \<open>
  C6. The merge keeps the existing records as they are, in front; it appends exactly the
  fresh jobs whose URL is not the URL of an existing record, so a fresh job with an existing
  URL is not among the appended ones and the length grows by the number of fresh jobs with a
  new URL; and when the URLs of the existing catalogue are pairwise different, no URL occurs
  twice in the merge with a duplicate-free fresh list, in particular with any result of
  \<open>searchSeek\<close>.
\<close>

theorem mergeJobs_catalogue:
  "take (length existing) (mergeJobs existing fresh) = existing
   \<and> length (mergeJobs existing fresh)
       = length existing + length (filter (\<lambda>j. url j \<notin> url ` set existing) fresh)
   \<and> (\<forall>j \<in> set fresh. url j \<in> url ` set existing \<longrightarrow>
         j \<notin> set (drop (length existing) (mergeJobs existing fresh)))
   \<and> (distinct (map url existing) \<longrightarrow> distinct (map url fresh) \<longrightarrow>
         distinct (map url (mergeJobs existing fresh)))
   \<and> (distinct (map url existing) \<longrightarrow>
         distinct (map url (mergeJobs existing (searchSeek pages))))"
  using mergeJobs_distinct [of existing fresh]
    mergeJobs_distinct [of existing "searchSeek pages"] searchSeek_urls [of pages]
  by (auto simp: mergeJobs_def Let_def)

theorem mergeJobs_catalogue_witness:
  "distinct (map url [exJob ''https://www.seek.com.au/job/1'' True])
   \<and> distinct (map url [exJob ''https://www.seek.com.au/job/1'' False,
                         exJob ''https://www.seek.com.au/job/2'' False])
   \<and> mergeJobs [exJob ''https://www.seek.com.au/job/1'' True]
        [exJob ''https://www.seek.com.au/job/1'' False,
         exJob ''https://www.seek.com.au/job/2'' False]
      = [exJob ''https://www.seek.com.au/job/1'' True,
         exJob ''https://www.seek.com.au/job/2'' False]
   \<and> distinct (map url (mergeJobs [exJob ''https://www.seek.com.au/job/1'' True]
        [exJob ''https://www.seek.com.au/job/1'' False,
         exJob ''https://www.seek.com.au/job/2'' False]))"
  using mergeJobs_catalogue [of "[exJob ''https://www.seek.com.au/job/1'' True]"
        "[exJob ''https://www.seek.com.au/job/1'' False,
          exJob ''https://www.seek.com.au/job/2'' False]" "[]"]
  by (simp add: mergeJobs_def exJob_def)

text \<open>
  C7, as stated, fails: the key is neither case- nor scheme-normalized. A catalogue holding
  \<open>https://www.seek.com.au/job/1a\<close>, merged with a search that scraped the links
  \<open>http://www.seek.com.au/job/1a\<close> and \<open>/job/1A\<close>, holds three records whose URLs are
  equal up to letter case and scheme.
\<close>

theorem dedup_key_not_normalized_counterexample:
  "map (spec_normalizeUrl \<circ> url)
     (mergeJobs [exJob ''https://www.seek.com.au/job/1a'' True]
        (searchSeek [[exRaw ''http://www.seek.com.au/job/1a'', exRaw ''/job/1A'']]))
   = [''www.seek.com.au/job/1a'', ''www.seek.com.au/job/1a'', ''www.seek.com.au/job/1a'']"
  by code_simp

text \<open>
  C7, amended. The key is the absolute URL string that \<open>searchSeek\<close> builds (a link that
  does not start with \<open>http\<close> is prefixed with \<open>https://www.seek.com.au\<close>), compared as it
  is: the search result never holds two records with the same URL string, and it holds a
  record for every absolute URL that was scraped.
\<close>

theorem searchSeek_exact_url_key:
  "distinct (map url (searchSeek pages)) \<and>
   set (map url (searchSeek pages)) = (\<lambda>j. jobUrl (raw_href j)) ` set (concat pages)"
  by (rule searchSeek_urls)

section \<open>What the controller appends to the trace\<close>

lemma emits_ret: "Q (Ok x) [] \<Longrightarrow> emits (ret x) Q"
  by (simp add: emits_def ret_def)

lemma emits_consoleLog: "Q (Ok ()) [Console m] \<Longrightarrow> emits (consoleLog m) Q"
  by (simp add: emits_def consoleLog_def record_event_def)

lemma emits_pageCall: "(\<And>r. Q r [ev]) \<Longrightarrow> emits (pageCall ev f) Q"
  by (simp add: emits_def pageCall_def record_event_def split: prod.splits)

lemma emits_evaluate:
  assumes "\<And>e. Q (Throw e) [Evaluate s]"
    and "\<And>pg x. f pg = (x, None) \<Longrightarrow> Q (Ok x) [Evaluate s]"
    and "\<And>pg x a. f pg = (x, Some a) \<Longrightarrow> Q (Ok x) [Evaluate s, Dom s a]"
  shows "emits (evaluate d s f) Q"
  using assms
  by (auto simp: emits_def evaluate_def record_event_def split: prod.splits result.splits option.splits)

lemma emits_bind:
  assumes "emits p P" and "\<And>x. emits (f x) (R x)"
    and "\<And>e n. P (Throw e) n \<Longrightarrow> Q (Throw e) n"
    and "\<And>x n r m. P (Ok x) n \<Longrightarrow> R x r m \<Longrightarrow> Q r (n @ m)"
  shows "emits (bind p f) Q"
  unfolding emits_def
proof
  fix w
  from assms(1) obtain n where n: "trace (snd (p w)) = trace w @ n" "P (fst (p w)) n"
    by (auto simp: emits_def)
  obtain r w1 where pw: "p w = (r, w1)" by (cases "p w")
  show "\<exists>new. trace (snd (bind p f w)) = trace w @ new \<and> Q (fst (bind p f w)) new"
  proof (cases r)
    case (Throw e)
    with pw n assms(3) [of e n] show ?thesis
      by (auto simp: bind_def intro!: exI [of _ n])
  next
    case (Ok x)
    from assms(2) [of x] obtain m where
      m: "trace (snd (f x w1)) = trace w1 @ m" "R x (fst (f x w1)) m"
      by (auto simp: emits_def)
    with Ok pw n assms(4) [of x n "fst (f x w1)" m] show ?thesis
      by (auto simp: bind_def intro!: exI [of _ "n @ m"])
  qed
qed

lemma emits_tryCatch:
  assumes "emits p P" and "\<And>e. emits (h e) (R e)"
    and "\<And>x n. P (Ok x) n \<Longrightarrow> Q (Ok x) n"
    and "\<And>e n r m. P (Throw e) n \<Longrightarrow> R e r m \<Longrightarrow> Q r (n @ m)"
  shows "emits (tryCatch p h) Q"
  unfolding emits_def
proof
  fix w
  from assms(1) obtain n where n: "trace (snd (p w)) = trace w @ n" "P (fst (p w)) n"
    by (auto simp: emits_def)
  obtain r w1 where pw: "p w = (r, w1)" by (cases "p w")
  show "\<exists>new. trace (snd (tryCatch p h w)) = trace w @ new \<and> Q (fst (tryCatch p h w)) new"
  proof (cases r)
    case (Ok x)
    with pw n assms(3) [of x n] show ?thesis
      by (auto simp: tryCatch_def intro!: exI [of _ n])
  next
    case (Throw e)
    from assms(2) [of e] obtain m where
      m: "trace (snd (h e w1)) = trace w1 @ m" "R e (fst (h e w1)) m"
      by (auto simp: emits_def)
    with Throw pw n assms(4) [of e n "fst (h e w1)" m] show ?thesis
      by (auto simp: tryCatch_def intro!: exI [of _ "n @ m"])
  qed
qed

lemma emits_weaken: "emits p P \<Longrightarrow> (\<And>r n. P r n \<Longrightarrow> Q r n) \<Longrightarrow> emits p Q"
  by (fastforce simp: emits_def)

text \<open>Programs all of whose events satisfy a predicate.\<close>

lemma only_ret: "emits (ret x) (\<lambda>r n. list_all P n)"
  by (rule emits_ret) simp

lemma only_consoleLog: "P (Console m) \<Longrightarrow> emits (consoleLog m) (\<lambda>r n. list_all P n)"
  by (rule emits_consoleLog) simp

lemma only_pageCall: "P ev \<Longrightarrow> emits (pageCall ev f) (\<lambda>r n. list_all P n)"
  by (rule emits_pageCall) simp

lemma only_evaluate:
  "P (Evaluate s) \<Longrightarrow> (\<And>a. P (Dom s a)) \<Longrightarrow> emits (evaluate d s f) (\<lambda>r n. list_all P n)"
  by (rule emits_evaluate) simp_all

lemma only_bind:
  "emits p (\<lambda>r n. list_all P n) \<Longrightarrow> (\<And>x. emits (f x) (\<lambda>r n. list_all P n)) \<Longrightarrow>
   emits (bind p f) (\<lambda>r n. list_all P n)"
  by (rule emits_bind [where P = "\<lambda>r n. list_all P n" and R = "\<lambda>x r n. list_all P n"]) simp_all

lemma only_tryCatch:
  "emits p (\<lambda>r n. list_all P n) \<Longrightarrow> (\<And>e. emits (h e) (\<lambda>r n. list_all P n)) \<Longrightarrow>
   emits (tryCatch p h) (\<lambda>r n. list_all P n)"
  by (rule emits_tryCatch [where P = "\<lambda>r n. list_all P n" and R = "\<lambda>x r n. list_all P n"]) simp_all

lemma only_getSavedAnswers: "emits getSavedAnswers (\<lambda>r n. list_all P n)"
  by (simp add: emits_def getSavedAnswers_def)

lemma only_persistAnswer: "emits (persistAnswer q a) (\<lambda>r n. list_all P n)"
  by (simp add: emits_def persistAnswer_def)

lemma quiet_fillAnswer: "emits (fillAnswer d q answer) (\<lambda>r n. list_all quietEvent n)"
  unfolding fillAnswer_def selectOption_def isVisible_def fill_def
  by (auto intro!: only_tryCatch only_bind only_pageCall only_evaluate only_ret simp: quietEvent_def)

lemma quiet_answerQuestion: "emits (answerQuestion d q) (\<lambda>r n. list_all quietEvent n)"
  unfolding answerQuestion_def
  by (auto intro!: only_tryCatch only_bind only_consoleLog only_ret only_getSavedAnswers
        only_persistAnswer quiet_fillAnswer simp: quietEvent_def split: option.splits)

lemma quiet_answerQuestions: "emits (answerQuestions d qs) (\<lambda>r n. list_all quietEvent n)"
  by (induction qs) (auto intro!: only_bind only_ret quiet_answerQuestion)

lemma quiet_prepareStep: "emits (prepareStep d jb) (\<lambda>r n. list_all quietEvent n)"
  unfolding prepareStep_def answerScreeningQuestions_def waitForTimeout_def
  by (auto intro!: only_bind only_consoleLog only_ret only_pageCall only_evaluate
        quiet_answerQuestions simp: quietEvent_def)

lemma quiet_clickApply: "emits (clickApply d sels) (\<lambda>r n. list_all quietEvent n)"
  by (induction sels)
     (auto intro!: only_bind only_consoleLog only_ret only_pageCall only_tryCatch
        simp: quietEvent_def isVisible_def click_def waitForTimeout_def)


lemma find_SomeD: "find P ys = Some y \<Longrightarrow> y \<in> set ys \<and> P y"
  by (induction ys) (auto split: if_splits)

lemma find_enumerate_Some:
  "find P (filter Q (enumerate 0 xs)) = Some (i, x) \<Longrightarrow> i < length xs \<and> xs ! i = x \<and> P (i, x) \<and> Q (i, x)"
  by (auto dest!: find_SomeD simp: in_set_enumerate_eq)

lemma clickButtonByTextScript_cases:
  "clickButtonByTextScript ts pg = (x, a) \<Longrightarrow>
     (\<not> x \<and> a = None) \<or>
     (\<exists>i el. x \<and> a = Some (Click i el) \<and> \<not> hasDisabled el \<and> i < length (elements pg)
        \<and> elements pg ! i = el)"
  by (auto simp: clickButtonByTextScript_def Let_def split: option.splits if_splits
        dest!: find_enumerate_Some)

lemma submitScript_cases:
  "submitScript pg = (x, a) \<Longrightarrow>
     (\<not> x \<and> a = None) \<or>
     (\<exists>i el. x \<and> a = Some (DispatchClick i el) \<and> i < length (elements pg) \<and> elements pg ! i = el)"
  by (auto simp: submitScript_def Let_def split: option.splits if_splits
        dest!: find_enumerate_Some)

lemma emits_clickContinue:
  "emits (clickButtonByText d continueTexts)
     (\<lambda>r n. (n = [Evaluate (ClickButtonByText continueTexts)] \<and> (\<exists>e. r = Throw e))
          \<or> (n = [Evaluate (ClickButtonByText continueTexts)] \<and> r = Ok False)
          \<or> (\<exists>i el. \<not> hasDisabled el \<and> r = Ok True
                \<and> n = [Evaluate (ClickButtonByText continueTexts),
                       Dom (ClickButtonByText continueTexts) (Click i el)]))"
  unfolding clickButtonByText_def
  by (rule emits_evaluate) (auto dest!: clickButtonByTextScript_cases)

lemma emits_afterContinue:
  "emits (bind (consoleLog LogClickedContinue) (\<lambda>_. bind (waitForTimeout d 2000) (\<lambda>_. ret Continue)))
     (\<lambda>r m. m = [Console LogClickedContinue, WaitForTimeout 2000]
           \<and> (r = Ok Continue \<or> (\<exists>e. r = Throw e)))"
  by (auto simp: emits_def bind_def consoleLog_def waitForTimeout_def pageCall_def ret_def
        record_event_def split: prod.splits result.splits)

lemma emits_afterSubmit:
  "emits (bind (consoleLog LogSubmitClicked) (\<lambda>_.
          bind (consoleLog LogWaitingConfirmation) (\<lambda>_.
          bind (tryCatch
                  (bind (waitForFunction d confirmationShown 15000) (\<lambda>_.
                     consoleLog (LogConfirmed (title jb))))
                  (\<lambda>e. consoleLog LogConfirmationNotDetected)) (\<lambda>_.
          ret (Return True)))))
     (\<lambda>r m. (\<exists>c. m = [Console LogSubmitClicked, Console LogWaitingConfirmation,
                       WaitForFunction 15000, Console c] \<and> isConfirmationLog c)
           \<and> r = Ok (Return True))"
  by (auto simp: emits_def bind_def tryCatch_def consoleLog_def waitForFunction_def pageCall_def
        ret_def record_event_def split: prod.splits result.splits)

lemma emits_submitBranch:
  "emits (bind (evaluate d ClickSubmit submitScript) (\<lambda>submitClicked.
           if submitClicked then
             bind (consoleLog LogSubmitClicked) (\<lambda>_.
             bind (consoleLog LogWaitingConfirmation) (\<lambda>_.
             bind (tryCatch
                     (bind (waitForFunction d confirmationShown 15000) (\<lambda>_.
                        consoleLog (LogConfirmed (title jb))))
                     (\<lambda>e. consoleLog LogConfirmationNotDetected)) (\<lambda>_.
             ret (Return True))))
           else
             bind (consoleLog LogNoActionableButton) (\<lambda>_. ret Break)))
     (\<lambda>r m. (m = [Evaluate ClickSubmit] \<and> (\<exists>e. r = Throw e))
          \<or> (\<exists>a c. m = [Evaluate ClickSubmit, Dom ClickSubmit a, Console LogSubmitClicked,
                         Console LogWaitingConfirmation, WaitForFunction 15000, Console c]
                \<and> isConfirmationLog c \<and> r = Ok (Return True))
          \<or> (m = [Evaluate ClickSubmit, Console LogNoActionableButton] \<and> r = Ok Break))"
  apply (rule emits_bind [where
      P = "\<lambda>r n. (n = [Evaluate ClickSubmit] \<and> (\<exists>e. r = Throw e))
               \<or> (n = [Evaluate ClickSubmit] \<and> r = Ok False)
               \<or> (\<exists>a. r = Ok True \<and> n = [Evaluate ClickSubmit, Dom ClickSubmit a])"
      and R = "\<lambda>x r m. if x then (\<exists>c. m = [Console LogSubmitClicked, Console LogWaitingConfirmation,
                       WaitForFunction 15000, Console c] \<and> isConfirmationLog c) \<and> r = Ok (Return True)
                  else m = [Console LogNoActionableButton] \<and> r = Ok Break"])
  subgoal by (rule emits_evaluate) (auto dest!: submitScript_cases)
  subgoal for x
  proof (cases x)
    case True
    then show ?thesis by (simp only: if_True) (rule emits_afterSubmit)
  next
    case False
    then show ?thesis
      by (simp add: emits_def bind_def consoleLog_def ret_def record_event_def)
  qed
  subgoal by auto
  subgoal by (auto split: if_splits)
  done

lemma emits_advanceStep: "emits (advanceStep d jb) advanceOutcome"
  unfolding advanceStep_def
  apply (rule emits_bind [OF emits_clickContinue, where
      R = "\<lambda>x r m. if x then m = [Console LogClickedContinue, WaitForTimeout 2000]
                           \<and> (r = Ok Continue \<or> (\<exists>e. r = Throw e))
                  else (m = [Evaluate ClickSubmit] \<and> (\<exists>e. r = Throw e))
          \<or> (\<exists>a c. m = [Evaluate ClickSubmit, Dom ClickSubmit a, Console LogSubmitClicked,
                         Console LogWaitingConfirmation, WaitForFunction 15000, Console c]
                \<and> isConfirmationLog c \<and> r = Ok (Return True))
          \<or> (m = [Evaluate ClickSubmit, Console LogNoActionableButton] \<and> r = Ok Break)"])
  subgoal for x
  proof (cases x)
    case True
    then show ?thesis by (simp only: if_True) (rule emits_afterContinue)
  next
    case False
    then show ?thesis by (simp only: if_False) (rule emits_submitBranch)
  qed
  subgoal by (auto simp: advanceOutcome_def)
  subgoal by (auto simp: advanceOutcome_def split: if_splits)
  done

lemma isDoneScript_noAction: "isDoneScript pg = (x, a) \<Longrightarrow> a = None"
  by (auto simp: isDoneScript_def Let_def)

lemma emits_prepare_advance:
  "emits (bind (prepareStep d jb) (\<lambda>_. advanceStep d jb))
     (\<lambda>r n. \<exists>q adv. n = q @ adv \<and> list_all quietEvent q
        \<and> ((adv = [] \<and> (r = Ok (Return True) \<or> (\<exists>e. r = Throw e))) \<or> advanceOutcome r adv))"
  apply (rule emits_bind [OF quiet_prepareStep, where R = "\<lambda>x. advanceOutcome"])
  subgoal by (rule emits_advanceStep)
  subgoal for e n by (intro exI [of _ n] exI [of _ "[]"]) simp
  subgoal for x n r m by (intro exI [of _ n] exI [of _ m]) simp
  done



lemma emits_alreadyConfirmed:
  "emits (bind (consoleLog (LogAlreadyConfirmed t)) (\<lambda>_. ret (Return True)))
     (\<lambda>r n. \<exists>q adv. n = q @ adv \<and> list_all quietEvent q
        \<and> ((adv = [] \<and> (r = Ok (Return True) \<or> (\<exists>e. r = Throw e))) \<or> advanceOutcome r adv))"
proof -
  have "emits (bind (consoleLog (LogAlreadyConfirmed t)) (\<lambda>_. ret (Return True)))
            (\<lambda>r n. n = [Console (LogAlreadyConfirmed t)] \<and> r = Ok (Return True))"
    by (simp add: emits_def bind_def consoleLog_def ret_def record_event_def)
  then show ?thesis
  proof (rule emits_weaken)
    fix r :: "loopCtl result" and n
    assume a: "n = [Console (LogAlreadyConfirmed t)] \<and> r = Ok (Return True)"
    have "n = n @ [] \<and> list_all quietEvent n
        \<and> (([] = [] \<and> (r = Ok (Return True) \<or> (\<exists>e. r = Throw e))) \<or> advanceOutcome r [])"
      using a by (simp add: quietEvent_def)
    then show "\<exists>q adv. n = q @ adv \<and> list_all quietEvent q
        \<and> ((adv = [] \<and> (r = Ok (Return True) \<or> (\<exists>e. r = Throw e))) \<or> advanceOutcome r adv)"
      by blast
  qed
qed

lemma emits_fromIsDone:
  "emits (bind (evaluate d IsDone isDoneScript) (\<lambda>isDone.
       if isDone then
         bind (consoleLog (LogAlreadyConfirmed (title jb))) (\<lambda>_. ret (Return True))
       else
         bind (prepareStep d jb) (\<lambda>_. advanceStep d jb)))
     (\<lambda>r n. \<exists>q adv. n = [Evaluate IsDone] @ q @ adv \<and> list_all quietEvent q
        \<and> ((adv = [] \<and> (r = Ok (Return True) \<or> (\<exists>e. r = Throw e))) \<or> advanceOutcome r adv))"
proof (rule emits_bind [where P = "\<lambda>r n. n = [Evaluate IsDone]"
        and R = "\<lambda>x r n. \<exists>q adv. n = q @ adv \<and> list_all quietEvent q
        \<and> ((adv = [] \<and> (r = Ok (Return True) \<or> (\<exists>e. r = Throw e))) \<or> advanceOutcome r adv)"])
  show "emits (evaluate d IsDone isDoneScript) (\<lambda>r n. n = [Evaluate IsDone])"
    by (rule emits_evaluate) (auto dest: isDoneScript_noAction)
next
  fix x
  show "emits (if x then bind (consoleLog (LogAlreadyConfirmed (title jb))) (\<lambda>_. ret (Return True))
               else bind (prepareStep d jb) (\<lambda>_. advanceStep d jb))
          (\<lambda>r n. \<exists>q adv. n = q @ adv \<and> list_all quietEvent q
        \<and> ((adv = [] \<and> (r = Ok (Return True) \<or> (\<exists>e. r = Throw e))) \<or> advanceOutcome r adv))"
  proof (cases x)
    case True
    then show ?thesis by (simp only: if_True) (rule emits_alreadyConfirmed)
  next
    case False
    then show ?thesis by (simp only: if_False) (rule emits_prepare_advance)
  qed
next
  fix e n
  assume n: "n = [Evaluate IsDone]"
  show "\<exists>q adv. n = [Evaluate IsDone] @ q @ adv \<and> list_all quietEvent q
        \<and> ((adv = [] \<and> (Throw e = Ok (Return True) \<or> (\<exists>e'. Throw e = Throw e')))
            \<or> advanceOutcome (Throw e) adv)"
    by (rule exI [of _ "[]"], rule exI [of _ "[]"]) (simp add: n)
next
  fix x n and r :: "loopCtl result" and m
  assume n: "n = [Evaluate IsDone]"
    and "\<exists>q adv. m = q @ adv \<and> list_all quietEvent q
        \<and> ((adv = [] \<and> (r = Ok (Return True) \<or> (\<exists>e. r = Throw e))) \<or> advanceOutcome r adv)"
  then obtain q adv where qa: "m = q @ adv" "list_all quietEvent q"
    "(adv = [] \<and> (r = Ok (Return True) \<or> (\<exists>e. r = Throw e))) \<or> advanceOutcome r adv"
    by (elim exE conjE)
  show "\<exists>q adv. n @ m = [Evaluate IsDone] @ q @ adv \<and> list_all quietEvent q
        \<and> ((adv = [] \<and> (r = Ok (Return True) \<or> (\<exists>e. r = Throw e))) \<or> advanceOutcome r adv)"
    by (rule exI [of _ q], rule exI [of _ adv]) (use n qa in simp)
qed

lemma emits_fromLogStep:
  "emits (bind (consoleLog (LogStep step)) (\<lambda>_.
          bind (evaluate d IsDone isDoneScript) (\<lambda>isDone.
       if isDone then
         bind (consoleLog (LogAlreadyConfirmed (title jb))) (\<lambda>_. ret (Return True))
       else
         bind (prepareStep d jb) (\<lambda>_. advanceStep d jb))))
     (\<lambda>r n. \<exists>q adv. n = [Console (LogStep step), Evaluate IsDone] @ q @ adv \<and> list_all quietEvent q
        \<and> ((adv = [] \<and> (r = Ok (Return True) \<or> (\<exists>e. r = Throw e))) \<or> advanceOutcome r adv))"
proof (rule emits_bind [OF _ emits_fromIsDone, where P = "\<lambda>r n. n = [Console (LogStep step)] \<and> r = Ok ()"])
  show "emits (consoleLog (LogStep step)) (\<lambda>r n. n = [Console (LogStep step)] \<and> r = Ok ())"
    by (rule emits_consoleLog) simp
next
  fix e n
  assume "n = [Console (LogStep step)] \<and> Throw e = Ok ()"
  then show "\<exists>q adv. n = [Console (LogStep step), Evaluate IsDone] @ q @ adv \<and> list_all quietEvent q
        \<and> ((adv = [] \<and> (Throw e = Ok (Return True) \<or> (\<exists>e'. Throw e = Throw e')))
            \<or> advanceOutcome (Throw e) adv)"
    by simp
next
  fix x n and r :: "loopCtl result" and m
  assume n: "n = [Console (LogStep step)] \<and> Ok x = Ok ()"
    and "\<exists>q adv. m = [Evaluate IsDone] @ q @ adv \<and> list_all quietEvent q
        \<and> ((adv = [] \<and> (r = Ok (Return True) \<or> (\<exists>e. r = Throw e))) \<or> advanceOutcome r adv)"
  then obtain q adv where qa: "m = [Evaluate IsDone] @ q @ adv" "list_all quietEvent q"
    "(adv = [] \<and> (r = Ok (Return True) \<or> (\<exists>e. r = Throw e))) \<or> advanceOutcome r adv"
    by (elim exE conjE)
  show "\<exists>q adv. n @ m = [Console (LogStep step), Evaluate IsDone] @ q @ adv \<and> list_all quietEvent q
        \<and> ((adv = [] \<and> (r = Ok (Return True) \<or> (\<exists>e. r = Throw e))) \<or> advanceOutcome r adv)"
    by (rule exI [of _ q], rule exI [of _ adv]) (use n qa in simp)
qed

lemma emits_stepBody: "emits (stepBody d jb step) (stepOutcome step)"
  unfolding stepBody_def
proof (rule emits_bind [OF _ emits_fromLogStep, where P = "\<lambda>r n. n = [WaitForTimeout 2000]"])
  show "emits (waitForTimeout d 2000) (\<lambda>r n. n = [WaitForTimeout 2000])"
    unfolding waitForTimeout_def by (rule emits_pageCall) simp
next
  fix e n
  assume "n = [WaitForTimeout 2000]"
  then show "stepOutcome step (Throw e) n"
    by (simp add: stepOutcome_def)
next
  fix x n and r :: "loopCtl result" and m
  assume n: "n = [WaitForTimeout 2000]"
    and "\<exists>q adv. m = [Console (LogStep step), Evaluate IsDone] @ q @ adv \<and> list_all quietEvent q
        \<and> ((adv = [] \<and> (r = Ok (Return True) \<or> (\<exists>e. r = Throw e))) \<or> advanceOutcome r adv)"
  then obtain q adv where qa: "m = [Console (LogStep step), Evaluate IsDone] @ q @ adv"
    "list_all quietEvent q"
    "(adv = [] \<and> (r = Ok (Return True) \<or> (\<exists>e. r = Throw e))) \<or> advanceOutcome r adv"
    by (elim exE conjE)
  have "\<exists>q adv. n @ m = [WaitForTimeout 2000, Console (LogStep step), Evaluate IsDone] @ q @ adv
         \<and> list_all quietEvent q
         \<and> ((adv = [] \<and> (r = Ok (Return True) \<or> (\<exists>e. r = Throw e))) \<or> advanceOutcome r adv)"
    by (rule exI [of _ q], rule exI [of _ adv]) (use n qa in simp)
  then show "stepOutcome step r (n @ m)"
    unfolding stepOutcome_def by (rule disjI2)
qed

lemma quiet_list:
  "list_all quietEvent q \<Longrightarrow>
     filter isStepStart q = [] \<and> filter isContinueClick q = [] \<and> \<not> list_ex isSubmitClick q
     \<and> \<not> list_ex isSubmitAttempt q \<and> \<not> list_ex isContinueAttempt q
     \<and> \<not> list_ex isContinueClick q"
  unfolding list_all_iff list_ex_iff filter_empty_conv quietEvent_def by blast



lemma advanceOutcome_facts:
  assumes "advanceOutcome r adv"
  shows "filter isStepStart adv = []"
    and "length (filter isContinueClick adv) \<le> 1"
    and "list_ex isSubmitClick adv \<longrightarrow> r = Ok (Return True)"
    and "r = Ok Continue \<longrightarrow> length (filter isContinueClick adv) = 1"
    and "list_ex isContinueClick adv \<longrightarrow> \<not> list_ex isSubmitAttempt adv \<and> \<not> list_ex isSubmitClick adv"
    and "list_ex isSubmitAttempt adv \<longrightarrow>
           list_ex isContinueAttempt (takeWhile (Not \<circ> isSubmitAttempt) adv)"
proof -
  from assms consider
      (a) "adv = [Evaluate (ClickButtonByText continueTexts)]" "\<exists>e. r = Throw e"
    | (b) i el where "adv = [Evaluate (ClickButtonByText continueTexts),
                Dom (ClickButtonByText continueTexts) (Click i el),
                Console LogClickedContinue, WaitForTimeout 2000]"
          "r = Ok Continue \<or> (\<exists>e. r = Throw e)"
    | (c) "adv = [Evaluate (ClickButtonByText continueTexts), Evaluate ClickSubmit]" "\<exists>e. r = Throw e"
    | (d) a c where "adv = [Evaluate (ClickButtonByText continueTexts), Evaluate ClickSubmit,
                  Dom ClickSubmit a, Console LogSubmitClicked, Console LogWaitingConfirmation,
                  WaitForFunction 15000, Console c]" "isConfirmationLog c" "r = Ok (Return True)"
    | (e) "adv = [Evaluate (ClickButtonByText continueTexts), Evaluate ClickSubmit,
            Console LogNoActionableButton]" "r = Ok Break"
    unfolding advanceOutcome_def by blast
  note cases = this
  show "filter isStepStart adv = []"
    using cases
  proof cases
    case (d a c)
    then show ?thesis by (cases c) simp_all
  qed simp_all
  show "length (filter isContinueClick adv) \<le> 1"
    using cases by cases simp_all
  show "list_ex isSubmitClick adv \<longrightarrow> r = Ok (Return True)"
    using cases by cases simp_all
  show "r = Ok Continue \<longrightarrow> length (filter isContinueClick adv) = 1"
    using cases by cases auto
  show "list_ex isContinueClick adv \<longrightarrow> \<not> list_ex isSubmitAttempt adv \<and> \<not> list_ex isSubmitClick adv"
    using cases by cases simp_all
  show "list_ex isSubmitAttempt adv \<longrightarrow>
           list_ex isContinueAttempt (takeWhile (Not \<circ> isSubmitAttempt) adv)"
    using cases by cases simp_all
qed

lemma stepOutcome_facts:
  assumes "stepOutcome step r n"
  shows "length (filter isStepStart n) \<le> 1"
    and "length (filter isContinueClick n) \<le> 1"
    and "list_ex isSubmitClick n \<longrightarrow> r = Ok (Return True)"
    and "r = Ok Continue \<longrightarrow> length (filter isStepStart n) = 1 \<and> length (filter isContinueClick n) = 1"
    and "list_ex isContinueClick n \<longrightarrow> \<not> list_ex isSubmitAttempt n \<and> \<not> list_ex isSubmitClick n"
    and "list_ex isSubmitAttempt n \<longrightarrow>
           list_ex isContinueAttempt (takeWhile (Not \<circ> isSubmitAttempt) n)"
proof -
  from assms consider (w) "n = [WaitForTimeout 2000]" "\<exists>e. r = Throw e"
    | (s) q adv where "n = [WaitForTimeout 2000, Console (LogStep step), Evaluate IsDone] @ q @ adv"
      "list_all quietEvent q"
      "(adv = [] \<and> (r = Ok (Return True) \<or> (\<exists>e. r = Throw e))) \<or> advanceOutcome r adv"
    unfolding stepOutcome_def by blast
  note cases = this
  have tw: "takeWhile (Not \<circ> isSubmitAttempt) (q @ adv) = q @ takeWhile (Not \<circ> isSubmitAttempt) adv"
    if "list_all quietEvent q" for q adv
    using that by (intro takeWhile_append2) (auto simp: list_all_iff quietEvent_def)
  show "length (filter isStepStart n) \<le> 1"
    using cases
  proof cases
    case w then show ?thesis by simp
  next
    case s then show ?thesis
      using quiet_list [OF s(2)] advanceOutcome_facts(1) [of r adv] by auto
  qed
  show "length (filter isContinueClick n) \<le> 1"
    using cases
  proof cases
    case w then show ?thesis by simp
  next
    case s then show ?thesis
      using quiet_list [OF s(2)] advanceOutcome_facts(2) [of r adv] by auto
  qed
  show "list_ex isSubmitClick n \<longrightarrow> r = Ok (Return True)"
    using cases
  proof cases
    case w then show ?thesis by simp
  next
    case s then show ?thesis
      using quiet_list [OF s(2)] advanceOutcome_facts(3) [of r adv] by auto
  qed
  show "r = Ok Continue \<longrightarrow> length (filter isStepStart n) = 1 \<and> length (filter isContinueClick n) = 1"
    using cases
  proof cases
    case w then show ?thesis by auto
  next
    case s then show ?thesis
      using quiet_list [OF s(2)] advanceOutcome_facts(1,4) [of r adv] by auto
  qed
  show "list_ex isContinueClick n \<longrightarrow> \<not> list_ex isSubmitAttempt n \<and> \<not> list_ex isSubmitClick n"
    using cases
  proof cases
    case w then show ?thesis by simp
  next
    case s then show ?thesis
      using quiet_list [OF s(2)] advanceOutcome_facts(5) [of r adv] by auto
  qed
  show "list_ex isSubmitAttempt n \<longrightarrow>
           list_ex isContinueAttempt (takeWhile (Not \<circ> isSubmitAttempt) n)"
    using cases
  proof cases
    case w then show ?thesis by simp
  next
    case s
    then show ?thesis
      using quiet_list [OF s(2)] advanceOutcome_facts(6) [of r adv] tw [OF s(2), of adv]
      by auto
  qed
qed

lemma runOutcome_quiet: "list_all quietEvent n \<Longrightarrow> runOutcome k good n"
  using quiet_list [of n] by (simp add: runOutcome_def)

lemma runOutcome_append_quiet:
  "list_all quietEvent n \<Longrightarrow> runOutcome k good m \<Longrightarrow> runOutcome k good (n @ m)"
  using quiet_list [of n] by (simp add: runOutcome_def)

lemma runOutcome_quiet_append:
  "runOutcome k good n \<Longrightarrow> list_all quietEvent m \<Longrightarrow> runOutcome k good (n @ m)"
  using quiet_list [of m] by (simp add: runOutcome_def)

lemma emits_quiet_bind:
  assumes "emits p (\<lambda>r n. list_all quietEvent n)"
    and "\<And>x. emits (f x) (\<lambda>r n. runOutcome k (G r) n)"
  shows "emits (bind p f) (\<lambda>r n. runOutcome k (G r) n)"
  by (rule emits_bind [OF assms(1), where R = "\<lambda>x r n. runOutcome k (G r) n"])
     (simp_all add: assms(2) runOutcome_quiet runOutcome_append_quiet)

lemma emits_stepLoop:
  "emits (stepLoop d jb step) (\<lambda>r n. runOutcome (9 - step) (r = Ok (Some True)) n)"
proof (induction d jb step rule: stepLoop.induct)
  case (1 d jb step)
  show ?case
  proof (cases "step \<le> 8")
    case False
    then have "stepLoop d jb step = ret None"
      by (subst stepLoop.simps) simp
    then show ?thesis
      by (simp add: emits_def ret_def runOutcome_def)
  next
    case True
    then have eq: "stepLoop d jb step =
        bind (stepBody d jb step) (\<lambda>ctl.
          case ctl of
            Continue \<Rightarrow> stepLoop d jb (step + 1)
          | Break \<Rightarrow> ret None
          | Return b \<Rightarrow> ret (Some b))"
      by (subst stepLoop.simps) simp
    show ?thesis
      unfolding eq
    proof (rule emits_bind [OF emits_stepBody, where
          R = "\<lambda>ctl r m. case ctl of
                 Continue \<Rightarrow> runOutcome (9 - (step + 1)) (r = Ok (Some True)) m
               | Break \<Rightarrow> m = [] \<and> r = Ok None
               | Return b \<Rightarrow> m = [] \<and> r = Ok (Some b)"])
      fix ctl
      show "emits (case ctl of Continue \<Rightarrow> stepLoop d jb (step + 1) | Break \<Rightarrow> ret None
                   | Return b \<Rightarrow> ret (Some b))
              (\<lambda>r m. case ctl of
                 Continue \<Rightarrow> runOutcome (9 - (step + 1)) (r = Ok (Some True)) m
               | Break \<Rightarrow> m = [] \<and> r = Ok None
               | Return b \<Rightarrow> m = [] \<and> r = Ok (Some b))"
        using "1.IH" [OF True] by (cases ctl) (simp_all add: emits_def ret_def)
    next
      fix e n
      assume "stepOutcome step (Throw e) n"
      from stepOutcome_facts(1,2,3) [OF this] True
      show "runOutcome (9 - step) (Throw e = Ok (Some True)) n"
        by (auto simp: runOutcome_def)
    next
      fix x n and r :: "bool option result" and m
      assume so: "stepOutcome step (Ok x) n"
        and R: "case x of
                 Continue \<Rightarrow> runOutcome (9 - (step + 1)) (r = Ok (Some True)) m
               | Break \<Rightarrow> m = [] \<and> r = Ok None
               | Return b \<Rightarrow> m = [] \<and> r = Ok (Some b)"
      from stepOutcome_facts(1,2,3) [OF so] True R
      show "runOutcome (9 - step) (r = Ok (Some True)) (n @ m)"
        by (cases x) (auto simp: runOutcome_def)
    qed
  qed
qed

lemma emits_afterLoop:
  "emits (bind (stepLoop d jb 1) (\<lambda>r.
           case r of
             Some b \<Rightarrow> ret b
           | None \<Rightarrow> bind (consoleLog (LogCouldNotComplete t)) (\<lambda>_. ret False)))
     (\<lambda>r n. runOutcome 8 (r = Ok True) n)"
proof (rule emits_bind [OF emits_stepLoop, where
      R = "\<lambda>x r m. list_all quietEvent m \<and> (x = Some True \<longrightarrow> r = Ok True)"])
  fix x :: "bool option"
  show "emits (case x of Some b \<Rightarrow> ret b
               | None \<Rightarrow> bind (consoleLog (LogCouldNotComplete t)) (\<lambda>_. ret False))
          (\<lambda>r m. list_all quietEvent m \<and> (x = Some True \<longrightarrow> r = Ok True))"
    by (cases x)
       (simp_all add: emits_def ret_def bind_def consoleLog_def record_event_def quietEvent_def)
next
  fix e n
  assume "runOutcome (9 - 1) (Throw e = Ok (Some True)) n"
  then show "runOutcome 8 (Throw e = Ok True) n"
    by (simp add: runOutcome_def)
next
  fix x :: "bool option" and n and r :: "bool result" and m
  assume a: "runOutcome (9 - 1) (Ok x = Ok (Some True)) n"
    and b: "list_all quietEvent m \<and> (x = Some True \<longrightarrow> r = Ok True)"
  have "runOutcome 8 (r = Ok True) n"
    using a b by (auto simp: runOutcome_def)
  then show "runOutcome 8 (r = Ok True) (n @ m)"
    using b by (simp add: runOutcome_quiet_append)
qed

lemma emits_applyAttempt:
  "emits (applyAttempt d jb) (\<lambda>r n. runOutcome 8 (r = Ok True) n)"
  unfolding applyAttempt_def
proof (intro emits_quiet_bind)
  show "emits (goto d (url jb) 60000) (\<lambda>r. list_all quietEvent)"
    unfolding goto_def by (rule only_pageCall) (simp add: quietEvent_def)
  show "emits (waitForTimeout d 2000) (\<lambda>r. list_all quietEvent)"
    unfolding waitForTimeout_def by (rule only_pageCall) (simp add: quietEvent_def)
  show "emits (clickApply d applySelectors) (\<lambda>r. list_all quietEvent)"
    by (rule quiet_clickApply)
  fix clicked
  show "emits (if \<not> clicked then bind (consoleLog LogNoApplyButton) (\<lambda>_. ret False)
               else bind (stepLoop d jb 1) (\<lambda>r.
                 case r of Some b \<Rightarrow> ret b
                 | None \<Rightarrow> bind (consoleLog (LogCouldNotComplete (title jb))) (\<lambda>_. ret False)))
          (\<lambda>r. runOutcome 8 (r = Ok True))"
  proof (cases clicked)
    case True
    then show ?thesis by (simp only: not_True_eq_False if_False) (rule emits_afterLoop)
  next
    case False
    then show ?thesis
      by (simp add: emits_def ret_def bind_def consoleLog_def record_event_def runOutcome_def)
  qed
qed

lemma emits_onError: "emits (onError e) (\<lambda>r m. list_all quietEvent m \<and> r = Ok False)"
  by (simp add: emits_def onError_def Let_def ret_def bind_def consoleLog_def record_event_def
      quietEvent_def)

lemma emits_log_bind:
  assumes q: "quietEvent (Console m)"
    and p: "emits p (\<lambda>r n. runOutcome k (G r) n \<and> H r)"
  shows "emits (bind (consoleLog m) (\<lambda>_. p)) (\<lambda>r n. runOutcome k (G r) n \<and> H r)"
proof (rule emits_bind [OF _ p, where P = "\<lambda>r n. list_all quietEvent n \<and> r = Ok ()"])
  show "emits (consoleLog m) (\<lambda>r n. list_all quietEvent n \<and> r = Ok ())"
    by (rule emits_consoleLog) (simp add: q)
next
  fix e n
  assume "list_all quietEvent n \<and> Throw e = Ok ()"
  then show "runOutcome k (G (Throw e)) n \<and> H (Throw e)" by simp
next
  fix x n and r :: "'b result" and l
  assume a: "list_all quietEvent n \<and> Ok x = Ok ()" and b: "runOutcome k (G r) l \<and> H r"
  from a b have "runOutcome k (G r) (n @ l)"
    by (intro runOutcome_append_quiet) simp_all
  with b show "runOutcome k (G r) (n @ l) \<and> H r" by simp
qed

lemma emits_applyToSeekJob:
  "emits (applyToSeekJob d jb) (\<lambda>r n. runOutcome 8 (r = Ok True) n \<and> (\<exists>b. r = Ok b))"
proof -
  have tc: "emits (tryCatch (applyAttempt d jb) onError)
              (\<lambda>r n. runOutcome 8 (r = Ok True) n \<and> (\<exists>b. r = Ok b))"
  proof (rule emits_tryCatch [OF emits_applyAttempt emits_onError])
    fix x n
    assume "runOutcome 8 (Ok x = Ok True) n"
    then show "runOutcome 8 (Ok x = Ok True) n \<and> (\<exists>b. Ok x = Ok b)" by simp
  next
    fix e n and r :: "bool result" and m
    assume a: "runOutcome 8 (Throw e = Ok True) n" and b: "list_all quietEvent m \<and> r = Ok False"
    from a have "runOutcome 8 (r = Ok True) n" by (simp add: runOutcome_def)
    then have "runOutcome 8 (r = Ok True) (n @ m)"
      using b by (intro runOutcome_quiet_append) simp_all
    moreover have "\<exists>b. r = Ok b"
      using b by blast
    ultimately show "runOutcome 8 (r = Ok True) (n @ m) \<and> (\<exists>b. r = Ok b)" ..
  qed
  show ?thesis
    unfolding applyToSeekJob_def
    by (intro emits_log_bind tc) (simp_all add: quietEvent_def)
qed

section \<open>Properties of the flow controller\<close>

lemma exDriver_simps [simp]:
  "drv_goto (exDriver pg g) = (\<lambda>u t b. (g, b))"
  "drv_waitForTimeout (exDriver pg g) = (\<lambda>ms b. (Ok (), b))"
  "drv_isVisible (exDriver pg g) = (\<lambda>sel t b. (Ok True, b))"
  "drv_click (exDriver pg g) = (\<lambda>sel b. (Ok (), b))"
  "drv_document (exDriver pg g) = (\<lambda>b. (Ok pg, b))"
  "drv_domAction (exDriver pg g) = (\<lambda>a b. b)"
  "drv_waitForFunction (exDriver pg g) = (\<lambda>f t b. (Throw (Error ''Timeout 15000ms exceeded''), b))"
  by (simp_all add: exDriver_def)

lemmas run_defs = bind_def tryCatch_def ret_def consoleLog_def pageCall_def evaluate_def
  record_event_def goto_def waitForTimeout_def isVisible_def click_def waitForFunction_def
  clickButtonByText_def getSavedAnswers_def persistAnswer_def

text \<open>
  C2. In a pass of the step loop the submit script is called only after
  \<open>clickButtonByText\<close> has been called with the continue texts, and a pass in which the
  continue click was made calls no submit script and dispatches no submit click.
\<close>

theorem stepBody_continue_before_submit:
  "\<exists>new. trace (snd (stepBody d jb step w)) = trace w @ new
     \<and> (list_ex isSubmitAttempt new \<longrightarrow>
          list_ex isContinueAttempt (takeWhile (Not \<circ> isSubmitAttempt) new))
     \<and> (list_ex isContinueClick new \<longrightarrow>
          \<not> list_ex isSubmitAttempt new \<and> \<not> list_ex isSubmitClick new)"
proof -
  from emits_stepBody [of d jb step] obtain new
    where n: "trace (snd (stepBody d jb step w)) = trace w @ new"
      and so: "stepOutcome step (fst (stepBody d jb step w)) new"
    unfolding emits_def by blast
  from n stepOutcome_facts(5,6) [OF so] show ?thesis by blast
qed

lemma ex_scripts_both:
  "isDoneScript (exPage els) = (False, None)"
  "skipCoverLetterScript (exPage [exButton ''Continue'' False, exButton ''Submit'' False]) = (False, None)"
  "extractQuestionsScript (exPage [exButton ''Continue'' False, exButton ''Submit'' False]) = ([], None)"
  "clickButtonByTextScript continueTexts (exPage [exButton ''Continue'' False, exButton ''Submit'' False])
     = (True, Some (Click 0 (exButton ''Continue'' False)))"
  by code_simp+

theorem stepBody_continue_before_submit_witness:
  "trace (snd (stepBody
      (exDriver (exPage [exButton ''Continue'' False, exButton ''Submit'' False]) (Ok ()))
      (exJob ''https://www.seek.com.au/job/1'' False) 1 exWorld))
   = [WaitForTimeout 2000, Console (LogStep 1), Evaluate IsDone, Evaluate SkipCoverLetter,
      Evaluate ExtractQuestions, Evaluate ScrollToBottom, Dom ScrollToBottom ScrollTo,
      WaitForTimeout 1500, Evaluate (ClickButtonByText continueTexts),
      Dom (ClickButtonByText continueTexts) (Click 0 (exButton ''Continue'' False)),
      Console LogClickedContinue, WaitForTimeout 2000]
   \<and> \<not> list_ex isSubmitAttempt (trace (snd (stepBody
      (exDriver (exPage [exButton ''Continue'' False, exButton ''Submit'' False]) (Ok ()))
      (exJob ''https://www.seek.com.au/job/1'' False) 1 exWorld)))"
proof -
  let ?d = "exDriver (exPage [exButton ''Continue'' False, exButton ''Submit'' False]) (Ok ())"
  let ?j = "exJob ''https://www.seek.com.au/job/1'' False"
  have run: "trace (snd (stepBody ?d ?j 1 exWorld))
   = [WaitForTimeout 2000, Console (LogStep 1), Evaluate IsDone, Evaluate SkipCoverLetter,
      Evaluate ExtractQuestions, Evaluate ScrollToBottom, Dom ScrollToBottom ScrollTo,
      WaitForTimeout 1500, Evaluate (ClickButtonByText continueTexts),
      Dom (ClickButtonByText continueTexts) (Click 0 (exButton ''Continue'' False)),
      Console LogClickedContinue, WaitForTimeout 2000]"
    by (simp add: stepBody_def prepareStep_def advanceStep_def answerScreeningQuestions_def
        run_defs ex_scripts_both scrollScript_def exWorld_def)
  from stepBody_continue_before_submit [of ?d ?j 1 exWorld]
  obtain new where n: "trace (snd (stepBody ?d ?j 1 exWorld)) = trace exWorld @ new"
    and c: "list_ex isContinueClick new \<longrightarrow> \<not> list_ex isSubmitAttempt new \<and> \<not> list_ex isSubmitClick new"
    by blast
  from n have new: "new = trace (snd (stepBody ?d ?j 1 exWorld))"
    by (simp add: exWorld_def)
  have "list_ex isContinueClick new"
    unfolding new run by simp
  with c have "\<not> list_ex isSubmitAttempt new" by blast
  with new run show ?thesis by simp
qed

text \<open>
  C3. Whenever the run of the controller dispatches the submit click, it returns \<open>true\<close>,
  whatever the wait for a confirmation does afterwards.
\<close>

theorem submit_click_returns_true:
  "\<exists>new. trace (snd (applyToSeekJob d jb w)) = trace w @ new
     \<and> (list_ex isSubmitClick new \<longrightarrow> fst (applyToSeekJob d jb w) = Ok True)"
proof -
  from emits_applyToSeekJob [of d jb] obtain new
    where "trace (snd (applyToSeekJob d jb w)) = trace w @ new"
      and "runOutcome 8 (fst (applyToSeekJob d jb w) = Ok True) new"
    unfolding emits_def by blast
  then show ?thesis
    unfolding runOutcome_def by blast
qed

text \<open>
  C8. The controller never throws: it always returns a Boolean. When the body of its
  \<open>try\<close> throws, it writes the console line that classifies the message (tab closed, or
  a generic error) and returns \<open>false\<close>.
\<close>

theorem applyToSeekJob_contains_exceptions:
  "(\<exists>b w'. applyToSeekJob d jb w = (Ok b, w'))
   \<and> (\<forall>e w1.
        applyAttempt d jb
          (record_event (Console (LogJobInfo (location jb) (workType jb) (salary jb)))
             (record_event (Console (LogApplying (title jb) (company jb))) w)) = (Throw e, w1)
        \<longrightarrow> applyToSeekJob d jb w
             = (Ok False,
                record_event (Console (if includesStr (message e) ''closed''
                                          \<or> includesStr (message e) ''Target''
                                       then LogTabClosed else LogError (message e))) w1))"
proof
  from emits_applyToSeekJob [of d jb] obtain b where "fst (applyToSeekJob d jb w) = Ok b"
    unfolding emits_def by blast
  then show "\<exists>b w'. applyToSeekJob d jb w = (Ok b, w')"
    by (cases "applyToSeekJob d jb w") auto
next
  show "\<forall>e w1.
        applyAttempt d jb
          (record_event (Console (LogJobInfo (location jb) (workType jb) (salary jb)))
             (record_event (Console (LogApplying (title jb) (company jb))) w)) = (Throw e, w1)
        \<longrightarrow> applyToSeekJob d jb w
             = (Ok False,
                record_event (Console (if includesStr (message e) ''closed''
                                          \<or> includesStr (message e) ''Target''
                                       then LogTabClosed else LogError (message e))) w1)"
    by (simp add: applyToSeekJob_def onError_def Let_def bind_def tryCatch_def ret_def
        consoleLog_def)
qed


lemma ex_scripts_submit:
  "skipCoverLetterScript (exPage [exButton ''Submit'' dis]) = (False, None)"
  "extractQuestionsScript (exPage [exButton ''Submit'' dis]) = ([], None)"
  "clickButtonByTextScript continueTexts (exPage [exButton ''Submit'' dis]) = (False, None)"
  "submitScript (exPage [exButton ''Submit'' dis])
     = (True, Some (DispatchClick 0 (exButton ''Submit'' dis)))"
  by code_simp+

lemma run_submit_page:
  "applyToSeekJob (exDriver (exPage [exButton ''Submit'' dis]) (Ok ()))
      (exJob ''https://www.seek.com.au/job/1'' False) exWorld
   = (Ok True,
      \<lparr>browser = (), savedAnswers = [],
       trace = [Console (LogApplying ''Developer'' ''Acme''),
                Console (LogJobInfo ''Sydney'' ''Hybrid'' ''Not listed''),
                Goto ''https://www.seek.com.au/job/1'', WaitForTimeout 2000,
                IsVisible ''[data-automation=\"job-detail-apply\"]'', Console LogClickingApply,
                LocatorClick ''[data-automation=\"job-detail-apply\"]'', WaitForTimeout 3000,
                WaitForTimeout 2000, Console (LogStep 1), Evaluate IsDone,
                Evaluate SkipCoverLetter, Evaluate ExtractQuestions, Evaluate ScrollToBottom,
                Dom ScrollToBottom ScrollTo, WaitForTimeout 1500,
                Evaluate (ClickButtonByText continueTexts), Evaluate ClickSubmit,
                Dom ClickSubmit (DispatchClick 0 (exButton ''Submit'' dis)),
                Console LogSubmitClicked, Console LogWaitingConfirmation,
                WaitForFunction 15000, Console LogConfirmationNotDetected]\<rparr>)"
  by (simp add: applyToSeekJob_def applyAttempt_def applySelectors_def
      stepLoop.simps [of _ _ "Suc 0"] stepBody_def prepareStep_def advanceStep_def
      answerScreeningQuestions_def run_defs ex_scripts_both(1) ex_scripts_submit scrollScript_def
      exWorld_def exJob_def)

theorem submit_click_returns_true_witness:
  "list_ex isSubmitClick
     (trace (snd (applyToSeekJob (exDriver (exPage [exButton ''Submit'' False]) (Ok ()))
        (exJob ''https://www.seek.com.au/job/1'' False) exWorld)))
   \<and> last (trace (snd (applyToSeekJob (exDriver (exPage [exButton ''Submit'' False]) (Ok ()))
        (exJob ''https://www.seek.com.au/job/1'' False) exWorld)))
       = Console LogConfirmationNotDetected
   \<and> fst (applyToSeekJob (exDriver (exPage [exButton ''Submit'' False]) (Ok ()))
        (exJob ''https://www.seek.com.au/job/1'' False) exWorld) = Ok True"
proof -
  let ?run = "applyToSeekJob (exDriver (exPage [exButton ''Submit'' False]) (Ok ()))
        (exJob ''https://www.seek.com.au/job/1'' False) exWorld"
  from submit_click_returns_true [of "exDriver (exPage [exButton ''Submit'' False]) (Ok ())"
      "exJob ''https://www.seek.com.au/job/1'' False" exWorld]
  obtain new where n: "trace (snd ?run) = trace exWorld @ new"
    and c: "list_ex isSubmitClick new \<longrightarrow> fst ?run = Ok True"
    by blast
  from n have new: "new = trace (snd ?run)"
    by (simp add: exWorld_def)
  have clicked: "list_ex isSubmitClick (trace (snd ?run))"
    by (simp add: run_submit_page)
  with c new have "fst ?run = Ok True" by simp
  moreover have "last (trace (snd ?run)) = Console LogConfirmationNotDetected"
    by (simp add: run_submit_page)
  ultimately show ?thesis using clicked by blast
qed

lemma closed_message:
  "includesStr ''Target page, context or browser has been closed'' ''closed''"
  by code_simp

theorem applyToSeekJob_contains_exceptions_witness:
  "applyToSeekJob
     (exDriver (exPage [])
        (Throw (Error ''Target page, context or browser has been closed'')))
     (exJob ''https://www.seek.com.au/job/1'' False) exWorld
   = (Ok False,
      \<lparr>browser = (), savedAnswers = [],
       trace = [Console (LogApplying ''Developer'' ''Acme''),
                Console (LogJobInfo ''Sydney'' ''Hybrid'' ''Not listed''),
                Goto ''https://www.seek.com.au/job/1'', Console LogTabClosed]\<rparr>)"
proof -
  let ?d = "exDriver (exPage [])
        (Throw (Error ''Target page, context or browser has been closed''))"
  let ?j = "exJob ''https://www.seek.com.au/job/1'' False"
  let ?w1 = "\<lparr>browser = (), savedAnswers = [],
       trace = [Console (LogApplying ''Developer'' ''Acme''),
                Console (LogJobInfo ''Sydney'' ''Hybrid'' ''Not listed''),
                Goto ''https://www.seek.com.au/job/1'']\<rparr>"
  have thrown: "applyAttempt ?d ?j
          (record_event (Console (LogJobInfo (location ?j) (workType ?j) (salary ?j)))
             (record_event (Console (LogApplying (title ?j) (company ?j))) exWorld))
        = (Throw (Error ''Target page, context or browser has been closed''), ?w1)"
    by (simp add: applyAttempt_def run_defs exWorld_def exJob_def)
  from applyToSeekJob_contains_exceptions [of ?d ?j exWorld] thrown
  have "applyToSeekJob ?d ?j exWorld
             = (Ok False,
                record_event (Console (if includesStr (message (Error ''Target page, context or browser has been closed'')) ''closed''
                                          \<or> includesStr (message (Error ''Target page, context or browser has been closed'')) ''Target''
                                       then LogTabClosed
                                       else LogError (message (Error ''Target page, context or browser has been closed'')))) ?w1)"
    by blast
  then show ?thesis
    by (simp add: closed_message record_event_def)
qed

text \<open>
  The continue trigger never clicks an element that carries a \<open>disabled\<close> attribute.
\<close>

lemma clickButtonByText_skips_disabled:
  "clickButtonByTextScript ts pg = (x, Some a) \<Longrightarrow> clickedElement a = Some el
     \<Longrightarrow> \<not> hasDisabled el"
  by (auto dest!: clickButtonByTextScript_cases)

text \<open>
  C9 fails for the submit trigger. On a page whose only button is a disabled \<open>Submit\<close>
  button, the submit script dispatches its click on that button, and the controller
  returns \<open>true\<close>.
\<close>

theorem submit_script_clicks_disabled_button:
  "hasDisabled (exButton ''Submit'' True)
   \<and> submitScript (exPage [exButton ''Submit'' True])
       = (True, Some (DispatchClick 0 (exButton ''Submit'' True)))
   \<and> list_ex (\<lambda>ev. ev = Dom ClickSubmit (DispatchClick 0 (exButton ''Submit'' True)))
        (trace (snd (applyToSeekJob (exDriver (exPage [exButton ''Submit'' True]) (Ok ()))
           (exJob ''https://www.seek.com.au/job/1'' False) exWorld)))
   \<and> fst (applyToSeekJob (exDriver (exPage [exButton ''Submit'' True]) (Ok ()))
           (exJob ''https://www.seek.com.au/job/1'' False) exWorld) = Ok True"
  by (simp add: run_submit_page ex_scripts_submit) (simp add: exButton_def)

section \<open>Properties of the screening-question pass\<close>

lemma putEntry_map_of: "map_of (putEntry k v es) k = Some v"
  by (induction es) auto

lemma putEntry_mem: "(k, v) \<in> set (putEntry k v es)"
  by (induction es) auto

lemma setProperty_map_of: "k \<noteq> ''__proto__'' \<Longrightarrow> map_of (setProperty k v es) k = Some v"
  by (simp add: setProperty_def putEntry_map_of)

lemma setProperty_mem: "k \<noteq> ''__proto__'' \<Longrightarrow> (k, v) \<in> set (setProperty k v es)"
  by (simp add: setProperty_def putEntry_mem)

lemma keepsSaved_ret: "keepsSaved (ret x)"
  by (simp add: keepsSaved_def ret_def)

lemma keepsSaved_consoleLog: "keepsSaved (consoleLog m)"
  by (simp add: keepsSaved_def consoleLog_def record_event_def)

lemma keepsSaved_pageCall: "keepsSaved (pageCall ev f)"
  by (simp add: keepsSaved_def pageCall_def record_event_def split: prod.splits)

lemma keepsSaved_evaluate: "keepsSaved (evaluate d s f)"
  by (simp add: keepsSaved_def evaluate_def record_event_def
      split: prod.splits result.splits option.splits)

lemma keepsSaved_bind:
  "keepsSaved p \<Longrightarrow> (\<And>x. keepsSaved (f x)) \<Longrightarrow> keepsSaved (bind p f)"
  by (auto simp: keepsSaved_def bind_def split: prod.splits result.splits)
     (metis snd_conv)+

lemma keepsSaved_tryCatch:
  "keepsSaved p \<Longrightarrow> (\<And>e. keepsSaved (h e)) \<Longrightarrow> keepsSaved (tryCatch p h)"
  by (auto simp: keepsSaved_def tryCatch_def split: prod.splits result.splits)
     (metis snd_conv)+

lemma keepsSaved_fillAnswer: "keepsSaved (fillAnswer d q answer)"
  unfolding fillAnswer_def selectOption_def isVisible_def fill_def
  by (auto intro!: keepsSaved_tryCatch keepsSaved_bind keepsSaved_pageCall keepsSaved_evaluate
        keepsSaved_ret)

lemma tryCatch_ret_unit: "fst (tryCatch p (\<lambda>e. ret ()) w) = Ok ()"
  by (auto simp: tryCatch_def ret_def split: prod.splits result.splits)

text \<open>
  For the label \<open>__proto__\<close> the resolver answers \<open>Yes\<close> as well, but the assignment of
  \<open>persistAnswer\<close> stores nothing.
\<close>

lemma persistAnswer_proto_label:
  "findAnswer [] ''__proto__'' [''Yes'', ''No''] = Some ''Yes''
   \<and> savedAnswers (snd (persistAnswer ''__proto__'' ''Yes'' exWorld)) = []
   \<and> savedAnswers (snd (answerQuestion (exDriver (exPage []) (Ok ()))
         (exQuestion ''__proto__'') exWorld)) = []"
proof -
  have fa: "findAnswer [] ''__proto__'' [''Yes'', ''No''] = Some ''Yes''"
    by code_simp
  have "keepsSaved (tryCatch (fillAnswer (exDriver (exPage []) (Ok ()))
          (exQuestion ''__proto__'') ''Yes'') (\<lambda>e. ret ()))"
    by (intro keepsSaved_tryCatch keepsSaved_fillAnswer keepsSaved_ret)
  then have "savedAnswers (snd (answerQuestion (exDriver (exPage []) (Ok ()))
         (exQuestion ''__proto__'') exWorld)) = []"
    using fa
    by (simp add: answerQuestion_def bind_def getSavedAnswers_def consoleLog_def
        persistAnswer_def record_event_def setProperty_def exWorld_def exQuestion_def
        keepsSaved_def)
  with fa show ?thesis
    by (simp add: persistAnswer_def setProperty_def exWorld_def)
qed

lemma answerQuestion_resolved:
  assumes "label q \<noteq> []"
    and "findAnswer (savedAnswers w) (label q) (options q) = Some answer"
    and "answer \<noteq> []"
  shows "fst (answerQuestion d q w) = Ok ()
     \<and> savedAnswers (snd (answerQuestion d q w)) = setProperty (label q) answer (savedAnswers w)"
proof -
  let ?w1 = "(record_event (Console (LogAnswer (label q) answer)) w)
               \<lparr>savedAnswers := setProperty (label q) answer (savedAnswers w)\<rparr>"
  have eq: "answerQuestion d q w = tryCatch (fillAnswer d q answer) (\<lambda>e. ret ()) ?w1"
    using assms
    by (simp add: answerQuestion_def bind_def getSavedAnswers_def consoleLog_def
        persistAnswer_def record_event_def)
  have "keepsSaved (tryCatch (fillAnswer d q answer) (\<lambda>e. ret ()))"
    by (intro keepsSaved_tryCatch keepsSaved_fillAnswer keepsSaved_ret)
  then have "savedAnswers (snd (tryCatch (fillAnswer d q answer) (\<lambda>e. ret ()) ?w1))
               = savedAnswers ?w1"
    unfolding keepsSaved_def by blast
  with eq show ?thesis
    by (simp add: tryCatch_ret_unit record_event_def)
qed

text \<open>
  C5, as stated, fails for a question with an empty label: the resolver would answer
  \<open>Yes\<close>, but the pass over the questions skips the question before it calls the
  resolver, and nothing is written to the learned cache.
\<close>

theorem binary_default_empty_label_counterexample:
  "extractQuestionsScript (exPage [exEmptyLabel, exSelect]) = ([exQuestion []], None)
   \<and> set (options (exQuestion [])) = {''Yes'', ''No''}
   \<and> firstMatch (toLowerCase (label (exQuestion []))) (savedAnswers exWorld) = None
   \<and> firstMatch (toLowerCase (label (exQuestion []))) SCREENING_ANSWERS = None
   \<and> findAnswer (savedAnswers exWorld) (label (exQuestion [])) (options (exQuestion []))
       = Some ''Yes''
   \<and> savedAnswers (snd (answerScreeningQuestions
        (exDriver (exPage [exEmptyLabel, exSelect]) (Ok ()))
        (exJob ''https://www.seek.com.au/job/1'' False) exWorld)) = []"
proof -
  have a: "extractQuestionsScript (exPage [exEmptyLabel, exSelect]) = ([exQuestion []], None)"
    by code_simp
  have b: "set (options (exQuestion [])) = {''Yes'', ''No''}"
    by (simp add: exQuestion_def)
  have c: "firstMatch (toLowerCase (label (exQuestion []))) (savedAnswers exWorld) = None"
    by (simp add: exWorld_def firstMatch_def)
  have d: "firstMatch (toLowerCase (label (exQuestion []))) SCREENING_ANSWERS = None"
    by code_simp
  have e: "findAnswer (savedAnswers exWorld) (label (exQuestion [])) (options (exQuestion []))
       = Some ''Yes''"
    by code_simp
  have f: "savedAnswers (snd (answerScreeningQuestions
        (exDriver (exPage [exEmptyLabel, exSelect]) (Ok ()))
        (exJob ''https://www.seek.com.au/job/1'' False) exWorld)) = []"
    by (simp add: answerScreeningQuestions_def answerQuestion_def run_defs a exWorld_def
        exQuestion_def)
  from a b c d e f show ?thesis by blast
qed

text \<open>
  C5, amended. For a question whose label is not empty and is not \<open>__proto__\<close>, whose
  options are exactly \<open>Yes\<close> and \<open>No\<close>, and whose label contains no key of the learned
  cache and no key of the rule table, the resolver returns \<open>Yes\<close>, and the pass over the
  question writes the pair of the label and \<open>Yes\<close> into the learned cache.
\<close>

theorem binary_default_persisted:
  assumes "label q \<noteq> []" and "label q \<noteq> ''__proto__''"
    and "set (options q) = {''Yes'', ''No''}"
    and "\<forall>(k, v) \<in> set (savedAnswers w). \<not> includesStr (toLowerCase (label q)) (toLowerCase k)"
    and "\<forall>(k, v) \<in> set SCREENING_ANSWERS. \<not> includesStr (toLowerCase (label q)) (toLowerCase k)"
  shows "findAnswer (savedAnswers w) (label q) (options q) = Some ''Yes''
     \<and> fst (answerQuestion d q w) = Ok ()
     \<and> (label q, ''Yes'') \<in> set (savedAnswers (snd (answerQuestion d q w)))
     \<and> map_of (savedAnswers (snd (answerQuestion d q w))) (label q) = Some ''Yes''"
proof -
  have "firstMatch (toLowerCase (label q)) (savedAnswers w) = None"
    using assms(4) by (simp add: firstMatch_None)
  moreover have "firstMatch (toLowerCase (label q)) SCREENING_ANSWERS = None"
    using assms(5) by (simp add: firstMatch_None)
  ultimately have fa: "findAnswer (savedAnswers w) (label q) (options q) = Some ''Yes''"
    using assms(3) by (simp add: findAnswer_def)
  from answerQuestion_resolved [OF assms(1) fa, of d] fa assms(2) show ?thesis
    by (simp add: setProperty_map_of setProperty_mem)
qed

theorem binary_default_persisted_witness:
  "findAnswer [(''salary'', ''80000'')] ''are you over 18?'' [''Yes'', ''No''] = Some ''Yes''
   \<and> map_of (savedAnswers (snd (answerQuestion (exDriver (exPage []) (Ok ()))
        (exQuestion ''are you over 18?'') (exWorld\<lparr>savedAnswers := [(''salary'', ''80000'')]\<rparr>))))
        ''are you over 18?'' = Some ''Yes''"
proof -
  let ?q = "exQuestion ''are you over 18?''"
  let ?w = "exWorld\<lparr>savedAnswers := [(''salary'', ''80000'')]\<rparr>"
  have a: "label ?q \<noteq> []" by (simp add: exQuestion_def)
  have a': "label ?q \<noteq> ''__proto__''" by (simp add: exQuestion_def)
  have b: "set (options ?q) = {''Yes'', ''No''}" by (simp add: exQuestion_def)
  have c0: "\<forall>(k, v) \<in> set [(''salary'', ''80000'')].
             \<not> includesStr (toLowerCase ''are you over 18?'') (toLowerCase k)"
    by code_simp
  have d0: "\<forall>(k, v) \<in> set SCREENING_ANSWERS.
             \<not> includesStr (toLowerCase ''are you over 18?'') (toLowerCase k)"
    by code_simp
  have c: "\<forall>(k, v) \<in> set (savedAnswers ?w).
             \<not> includesStr (toLowerCase (label ?q)) (toLowerCase k)"
    using c0 by (simp add: exQuestion_def)
  have d: "\<forall>(k, v) \<in> set SCREENING_ANSWERS.
             \<not> includesStr (toLowerCase (label ?q)) (toLowerCase k)"
    using d0 by (simp add: exQuestion_def)
  from binary_default_persisted [OF a a' b c d, of "exDriver (exPage []) (Ok ())"]
  show ?thesis by (simp add: exQuestion_def)
qed

section \<open>The step ceiling\<close>

lemma yields_ret: "Q x \<Longrightarrow> yields (ret x) Q"
  by (simp add: yields_def ret_def)

lemma yields_consoleLog: "yields (consoleLog m) (\<lambda>_. True)"
  by (simp add: yields_def consoleLog_def)

lemma yields_getSavedAnswers: "yields getSavedAnswers (\<lambda>_. True)"
  by (simp add: yields_def getSavedAnswers_def)

lemma yields_persistAnswer: "yields (persistAnswer q a) (\<lambda>_. True)"
  by (simp add: yields_def persistAnswer_def)

lemma yields_bind:
  assumes "yields p P" and "\<And>x. P x \<Longrightarrow> yields (f x) Q"
  shows "yields (bind p f) Q"
  unfolding yields_def
proof
  fix w
  from assms(1) obtain x where x: "fst (p w) = Ok x" "P x"
    unfolding yields_def by blast
  then have "bind p f w = f x (snd (p w))"
    by (cases "p w") (simp add: bind_def)
  with assms(2) [OF x(2)] show "\<exists>y. fst (bind p f w) = Ok y \<and> Q y"
    unfolding yields_def by simp
qed

lemma yields_bind_any:
  "yields p (\<lambda>_. True) \<Longrightarrow> (\<And>x. yields (f x) Q) \<Longrightarrow> yields (bind p f) Q"
  by (rule yields_bind)

lemma yields_tryCatch:
  assumes "\<And>e. yields (h e) (\<lambda>_. True)"
  shows "yields (tryCatch p h) (\<lambda>_. True)"
  unfolding yields_def
proof
  fix w
  obtain r w1 where pw: "p w = (r, w1)" by (cases "p w")
  show "\<exists>x. fst (tryCatch p h w) = Ok x \<and> True"
  proof (cases r)
    case (Ok x)
    with pw show ?thesis by (simp add: tryCatch_def)
  next
    case (Throw e)
    with pw assms [of e] show ?thesis by (simp add: tryCatch_def yields_def)
  qed
qed

lemma yields_pageCall:
  "\<forall>b. \<exists>b'. f b = (Ok (), b') \<Longrightarrow> yields (pageCall ev f) (\<lambda>_. True)"
  unfolding yields_def pageCall_def
  by (metis (mono_tags, lifting) case_prod_conv fst_conv)

lemma yields_evaluate:
  fixes d :: "'b driver"
  assumes "\<forall>b. \<exists>pg b'. drv_document d b = (Ok pg, b') \<and> G pg"
  shows "yields (evaluate d s f) (\<lambda>x. \<exists>pg. G pg \<and> x = fst (f pg))"
  unfolding yields_def
proof
  fix w :: "'b world"
  from assms obtain pg b' where doc: "drv_document d (browser w) = (Ok pg, b')" and g: "G pg"
    by blast
  have "fst (evaluate d s f w) = Ok (fst (f pg))"
    using doc by (cases "f pg") (simp add: evaluate_def split: option.splits)
  with g show "\<exists>x. fst (evaluate d s f w) = Ok x \<and> (\<exists>pg. G pg \<and> x = fst (f pg))"
    by blast
qed

lemma yields_weaken: "yields p P \<Longrightarrow> (\<And>x. P x \<Longrightarrow> Q x) \<Longrightarrow> yields p Q"
  unfolding yields_def by blast

lemma yields_isVisible: "yields (isVisible d sel t) (\<lambda>_. True)"
  unfolding isVisible_def by (rule yields_tryCatch) (rule yields_ret, simp)

lemma yields_fillAnswer_caught: "yields (tryCatch (fillAnswer d q a) (\<lambda>e. ret ())) (\<lambda>_. True)"
  by (rule yields_tryCatch) (rule yields_ret, simp)

lemma yields_answerQuestion: "yields (answerQuestion d q) (\<lambda>_. True)"
  unfolding answerQuestion_def
  by (auto intro!: yields_ret yields_bind_any yields_getSavedAnswers yields_consoleLog
        yields_persistAnswer yields_fillAnswer_caught split: option.splits)

lemma yields_answerQuestions: "yields (answerQuestions d qs) (\<lambda>_. True)"
  by (induction qs) (auto intro!: yields_ret yields_bind_any yields_answerQuestion)

lemma noPageErrors_wait: "noPageErrors d \<Longrightarrow> yields (waitForTimeout d ms) (\<lambda>_. True)"
  unfolding waitForTimeout_def by (rule yields_pageCall) (simp add: noPageErrors_def)

lemma noPageErrors_goto: "noPageErrors d \<Longrightarrow> yields (goto d u t) (\<lambda>_. True)"
  unfolding goto_def by (rule yields_pageCall) (simp add: noPageErrors_def)

lemma noPageErrors_click: "noPageErrors d \<Longrightarrow> yields (click d sel) (\<lambda>_. True)"
  unfolding click_def by (rule yields_pageCall) (simp add: noPageErrors_def)

lemma noPageErrors_evaluate:
  "noPageErrors d \<Longrightarrow> yields (evaluate d s f) (\<lambda>_. True)"
  by (rule yields_weaken [OF yields_evaluate [where G = "\<lambda>_. True"]])
     (simp_all add: noPageErrors_def)

lemma yields_prepareStep: "noPageErrors d \<Longrightarrow> yields (prepareStep d jb) (\<lambda>_. True)"
  unfolding prepareStep_def answerScreeningQuestions_def
  by (auto intro!: yields_bind_any noPageErrors_evaluate noPageErrors_wait yields_consoleLog
        yields_ret yields_answerQuestions)


lemma find_filter_enumerate:
  "map_option snd (find (\<lambda>(i, el). P el) (filter (\<lambda>(i, el). Q el) (enumerate n xs)))
     = find (\<lambda>el. Q el \<and> P el) xs"
  by (induction xs arbitrary: n) auto

lemma clickButtonByTextScript_firstContinueEnabled:
  "fst (clickButtonByTextScript continueTexts pg) = firstContinueEnabled pg"
proof -
  let ?P = "\<lambda>el. \<exists>s \<in> set continueTexts. buttonText el = s \<or> includesStr (buttonText el) s"
  let ?Q = "\<lambda>el. tagName el = ''button'' \<or> roleAttr el = Some ''button''
                \<or> (tagName el = ''input'' \<and> typeProp el = ''submit'')"
  let ?found = "find (\<lambda>(i, el). ?P el) (filter (\<lambda>(i, el). ?Q el) (enumerate 0 (elements pg)))"
  have "(\<lambda>el. ?Q el \<and> ?P el) = isContinueControl"
    by (rule ext) (simp add: isContinueControl_def isClickable_def list_ex_iff)
  with find_filter_enumerate [of ?P ?Q 0 "elements pg"]
  have key: "map_option snd ?found = find isContinueControl (elements pg)"
    by simp
  show ?thesis
  proof (cases ?found)
    case None
    with key show ?thesis
      by (simp add: clickButtonByTextScript_def firstContinueEnabled_def)
  next
    case (Some a)
    obtain i btn where a: "a = (i, btn)" by (cases a)
    from key Some a have "find isContinueControl (elements pg) = Some btn"
      by simp
    with Some a show ?thesis
      by (simp add: clickButtonByTextScript_def firstContinueEnabled_def)
  qed
qed

lemma endless_document:
  "noPageErrors d \<Longrightarrow> endlessContinueForm d \<Longrightarrow>
   \<forall>b. \<exists>pg b'. drv_document d b = (Ok pg, b')
          \<and> (\<not> fst (isDoneScript pg) \<and> firstContinueEnabled pg)"
  unfolding noPageErrors_def endlessContinueForm_def by blast

lemma yields_advanceStep:
  assumes "noPageErrors d" and "endlessContinueForm d"
  shows "yields (advanceStep d jb) (\<lambda>c. c = Continue)"
  unfolding advanceStep_def
proof (rule yields_bind [where P = "\<lambda>x. x"])
  show "yields (clickButtonByText d continueTexts) (\<lambda>x. x)"
    unfolding clickButtonByText_def
    by (rule yields_weaken [OF yields_evaluate [OF endless_document [OF assms]]])
       (auto simp: clickButtonByTextScript_firstContinueEnabled)
next
  fix x :: bool
  assume x
  then show "yields (if x then bind (consoleLog LogClickedContinue)
                 (\<lambda>_. bind (waitForTimeout d 2000) (\<lambda>_. ret Continue))
               else bind (evaluate d ClickSubmit submitScript) (\<lambda>submitClicked.
                 if submitClicked then
                   bind (consoleLog LogSubmitClicked) (\<lambda>_.
                   bind (consoleLog LogWaitingConfirmation) (\<lambda>_.
                   bind (tryCatch
                           (bind (waitForFunction d confirmationShown 15000) (\<lambda>_.
                              consoleLog (LogConfirmed (title jb))))
                           (\<lambda>e. consoleLog LogConfirmationNotDetected)) (\<lambda>_.
                   ret (Return True))))
                 else bind (consoleLog LogNoActionableButton) (\<lambda>_. ret Break)))
          (\<lambda>c. c = Continue)"
    by (simp only: if_True)
       (intro yields_bind_any yields_consoleLog noPageErrors_wait assms yields_ret refl)
qed

lemma yields_stepBody:
  assumes "noPageErrors d" and "endlessContinueForm d"
  shows "yields (stepBody d jb step) (\<lambda>c. c = Continue)"
  unfolding stepBody_def
proof (rule yields_bind_any [OF noPageErrors_wait [OF assms(1)]],
       rule yields_bind_any [OF yields_consoleLog])
  show "yields (bind (evaluate d IsDone isDoneScript) (\<lambda>isDone.
          if isDone then
            bind (consoleLog (LogAlreadyConfirmed (title jb))) (\<lambda>_. ret (Return True))
          else bind (prepareStep d jb) (\<lambda>_. advanceStep d jb)))
        (\<lambda>c. c = Continue)"
  proof (rule yields_bind [where P = "\<lambda>x. \<not> x"])
    show "yields (evaluate d IsDone isDoneScript) (\<lambda>x. \<not> x)"
      by (rule yields_weaken [OF yields_evaluate [OF endless_document [OF assms]]]) auto
  next
    fix x :: bool
    assume "\<not> x"
    then show "yields (if x then
            bind (consoleLog (LogAlreadyConfirmed (title jb))) (\<lambda>_. ret (Return True))
          else bind (prepareStep d jb) (\<lambda>_. advanceStep d jb)) (\<lambda>c. c = Continue)"
      by (simp only: if_False)
         (intro yields_bind_any yields_prepareStep yields_advanceStep assms)
  qed
qed

lemma emits_yields:
  assumes "emits p P" and "yields p Q"
  shows "emits p (\<lambda>r n. P r n \<and> (\<exists>x. r = Ok x \<and> Q x))"
  using assms unfolding emits_def yields_def by metis

lemma stepBody_ceiling:
  assumes "noPageErrors d" and "endlessContinueForm d"
  shows "emits (stepBody d jb step) (ceilingOutcome 1 Continue)"
proof (rule emits_weaken [OF emits_yields [OF emits_stepBody yields_stepBody [OF assms]]])
  fix r :: "loopCtl result" and n
  assume "stepOutcome step r n \<and> (\<exists>x. r = Ok x \<and> x = Continue)"
  then have so: "stepOutcome step r n" and r: "r = Ok Continue" by auto
  from stepOutcome_facts(4) [OF so] r show "ceilingOutcome 1 Continue r n"
    by (simp add: ceilingOutcome_def)
qed

lemma stepLoop_ceiling:
  assumes "noPageErrors d" and "endlessContinueForm d"
  shows "step \<le> 9 \<Longrightarrow> emits (stepLoop d jb step) (ceilingOutcome (9 - step) None)"
  using assms
proof (induction d jb step rule: stepLoop.induct)
  case (1 d jb step)
  show ?case
  proof (cases "step \<le> 8")
    case False
    with "1.prems" have "step = 9" by simp
    moreover have "stepLoop d jb 9 = ret None"
      by (subst stepLoop.simps) simp
    ultimately show ?thesis
      by (simp add: emits_def ret_def ceilingOutcome_def)
  next
    case True
    then have eq: "stepLoop d jb step =
        bind (stepBody d jb step) (\<lambda>ctl.
          case ctl of
            Continue \<Rightarrow> stepLoop d jb (step + 1)
          | Break \<Rightarrow> ret None
          | Return b \<Rightarrow> ret (Some b))"
      by (subst stepLoop.simps) simp
    from True have le: "step + 1 \<le> 9" by simp
    note ih = "1.IH" [OF True le "1.prems"(2,3)]
    show ?thesis
      unfolding eq
    proof (rule emits_bind [OF stepBody_ceiling [OF "1.prems"(2,3)], where
          R = "\<lambda>ctl r m. ctl = Continue \<longrightarrow> ceilingOutcome (9 - (step + 1)) None r m"])
      fix ctl
      show "emits (case ctl of Continue \<Rightarrow> stepLoop d jb (step + 1) | Break \<Rightarrow> ret None
                   | Return b \<Rightarrow> ret (Some b))
              (\<lambda>r m. ctl = Continue \<longrightarrow> ceilingOutcome (9 - (step + 1)) None r m)"
        using ih by (cases ctl) (simp_all add: emits_def ret_def)
    next
      fix e n
      assume "ceilingOutcome 1 Continue (Throw e) n"
      then show "ceilingOutcome (9 - step) None (Throw e) n"
        by (simp add: ceilingOutcome_def)
    next
      fix x n and r :: "bool option result" and m
      assume a: "ceilingOutcome 1 Continue (Ok x) n"
        and b: "x = Continue \<longrightarrow> ceilingOutcome (9 - (step + 1)) None r m"
      from a have "x = Continue" by (simp add: ceilingOutcome_def)
      with a b True show "ceilingOutcome (9 - step) None r (n @ m)"
        by (simp add: ceilingOutcome_def)
    qed
  qed
qed

lemma ceiling_after_quiet:
  assumes q: "emits p (\<lambda>r n. list_all quietEvent n)" and y: "yields p P"
    and f: "\<And>x. P x \<Longrightarrow> emits (f x) (ceilingOutcome k b)"
  shows "emits (bind p f) (ceilingOutcome k b)"
  unfolding emits_def
proof
  fix w
  from y obtain x where x: "fst (p w) = Ok x" "P x"
    unfolding yields_def by blast
  from q obtain n where n: "trace (snd (p w)) = trace w @ n" "list_all quietEvent n"
    unfolding emits_def by blast
  from f [OF x(2)] obtain m where m: "trace (snd (f x (snd (p w)))) = trace (snd (p w)) @ m"
    "ceilingOutcome k b (fst (f x (snd (p w)))) m"
    unfolding emits_def by blast
  from x(1) have eq: "bind p f w = f x (snd (p w))"
    by (cases "p w") (simp add: bind_def)
  have "trace (snd (bind p f w)) = trace w @ (n @ m)"
    using eq n(1) m(1) by simp
  moreover have "ceilingOutcome k b (fst (bind p f w)) (n @ m)"
    using eq m(2) quiet_list [OF n(2)] by (simp add: ceilingOutcome_def)
  ultimately show "\<exists>new. trace (snd (bind p f w)) = trace w @ new
                    \<and> ceilingOutcome k b (fst (bind p f w)) new"
    by blast
qed

lemma yields_clickApply:
  assumes "noPageErrors d"
  shows "list_ex (\<lambda>sel. \<forall>b. \<exists>b'. drv_isVisible d sel 3000 b = (Ok True, b')) sels
         \<Longrightarrow> yields (clickApply d sels) (\<lambda>x. x)"
proof (induction sels)
  case Nil
  then show ?case by simp
next
  case (Cons sel sels)
  let ?vis = "\<forall>b. \<exists>b'. drv_isVisible d sel 3000 b = (Ok True, b')"
  have v: "yields (isVisible d sel 3000) (\<lambda>v. ?vis \<longrightarrow> v)"
  proof (cases ?vis)
    case True
    then have "\<And>w. fst (isVisible d sel 3000 w) = Ok True"
      unfolding isVisible_def tryCatch_def pageCall_def
      by (metis (mono_tags, lifting) case_prod_conv fst_conv result.simps(5))
    then show ?thesis unfolding yields_def by auto
  next
    case False
    then show ?thesis
      by (intro yields_weaken [OF yields_isVisible]) blast
  qed
  show ?case
    unfolding clickApply.simps
  proof (rule yields_bind [OF v])
    fix x :: bool
    assume x: "?vis \<longrightarrow> x"
    show "yields (if x then bind (consoleLog LogClickingApply) (\<lambda>_.
                    bind (click d sel) (\<lambda>_. bind (waitForTimeout d 3000) (\<lambda>_. ret True)))
                  else clickApply d sels) (\<lambda>x. x)"
    proof (cases x)
      case True
      then show ?thesis
        by (simp only: if_True)
           (intro yields_bind_any yields_consoleLog noPageErrors_click noPageErrors_wait
              assms yields_ret TrueI)
    next
      case False
      with x Cons.prems have "list_ex (\<lambda>sel. \<forall>b. \<exists>b'. drv_isVisible d sel 3000 b = (Ok True, b')) sels"
        by auto
      from Cons.IH [OF this] False show ?thesis by simp
    qed
  qed
qed


lemma emits_afterLoop_ceiling:
  assumes "noPageErrors d" and "endlessContinueForm d"
  shows "emits (bind (stepLoop d jb 1) (\<lambda>r.
           case r of
             Some b \<Rightarrow> ret b
           | None \<Rightarrow> bind (consoleLog (LogCouldNotComplete t)) (\<lambda>_. ret False)))
     (ceilingOutcome 8 False)"
proof (rule emits_bind [where P = "ceilingOutcome 8 None"
      and R = "\<lambda>x r m. x = None \<longrightarrow> list_all quietEvent m \<and> r = Ok False"])
  show "emits (stepLoop d jb 1) (ceilingOutcome 8 None)"
    using stepLoop_ceiling [OF assms, of 1 jb] by simp
next
  fix x :: "bool option"
  show "emits (case x of Some b \<Rightarrow> ret b
               | None \<Rightarrow> bind (consoleLog (LogCouldNotComplete t)) (\<lambda>_. ret False))
          (\<lambda>r m. x = None \<longrightarrow> list_all quietEvent m \<and> r = Ok False)"
    by (cases x)
       (simp_all add: emits_def ret_def bind_def consoleLog_def record_event_def quietEvent_def)
next
  fix e n
  assume "ceilingOutcome 8 None (Throw e) n"
  then show "ceilingOutcome 8 False (Throw e) n"
    by (simp add: ceilingOutcome_def)
next
  fix x :: "bool option" and n and r :: "bool result" and m
  assume a: "ceilingOutcome 8 None (Ok x) n"
    and b: "x = None \<longrightarrow> list_all quietEvent m \<and> r = Ok False"
  from a have "x = None" by (simp add: ceilingOutcome_def)
  with b have m: "list_all quietEvent m" and r: "r = Ok False" by simp_all
  from a r quiet_list [OF m] show "ceilingOutcome 8 False r (n @ m)"
    by (simp add: ceilingOutcome_def)
qed

lemma applyAttempt_ceiling:
  assumes "noPageErrors d" and "applyTriggerVisible d" and "endlessContinueForm d"
  shows "emits (applyAttempt d jb) (ceilingOutcome 8 False)"
  unfolding applyAttempt_def
proof (rule ceiling_after_quiet [where P = "\<lambda>_. True"])
  show "emits (goto d (url jb) 60000) (\<lambda>r. list_all quietEvent)"
    unfolding goto_def by (rule only_pageCall) (simp add: quietEvent_def)
  show "yields (goto d (url jb) 60000) (\<lambda>_. True)"
    by (rule noPageErrors_goto [OF assms(1)])
next
  fix u :: unit
  show "emits (bind (waitForTimeout d 2000) (\<lambda>_. bind (clickApply d applySelectors)
          (\<lambda>clicked. if \<not> clicked then bind (consoleLog LogNoApplyButton) (\<lambda>_. ret False)
             else bind (stepLoop d jb 1) (\<lambda>r. case r of Some b \<Rightarrow> ret b
               | None \<Rightarrow> bind (consoleLog (LogCouldNotComplete (title jb))) (\<lambda>_. ret False)))))
          (ceilingOutcome 8 False)"
  proof (rule ceiling_after_quiet [where P = "\<lambda>_. True"])
    show "emits (waitForTimeout d 2000) (\<lambda>r. list_all quietEvent)"
      unfolding waitForTimeout_def by (rule only_pageCall) (simp add: quietEvent_def)
    show "yields (waitForTimeout d 2000) (\<lambda>_. True)"
      by (rule noPageErrors_wait [OF assms(1)])
  next
    fix u :: unit
    show "emits (bind (clickApply d applySelectors)
          (\<lambda>clicked. if \<not> clicked then bind (consoleLog LogNoApplyButton) (\<lambda>_. ret False)
             else bind (stepLoop d jb 1) (\<lambda>r. case r of Some b \<Rightarrow> ret b
               | None \<Rightarrow> bind (consoleLog (LogCouldNotComplete (title jb))) (\<lambda>_. ret False))))
          (ceilingOutcome 8 False)"
    proof (rule ceiling_after_quiet [where P = "\<lambda>x. x"])
      show "emits (clickApply d applySelectors) (\<lambda>r. list_all quietEvent)"
        by (rule quiet_clickApply)
      show "yields (clickApply d applySelectors) (\<lambda>x. x)"
        using assms(2) unfolding applyTriggerVisible_def
        by (rule yields_clickApply [OF assms(1)])
    next
      fix clicked :: bool
      assume clicked
      then show "emits (if \<not> clicked then bind (consoleLog LogNoApplyButton) (\<lambda>_. ret False)
             else bind (stepLoop d jb 1) (\<lambda>r. case r of Some b \<Rightarrow> ret b
               | None \<Rightarrow> bind (consoleLog (LogCouldNotComplete (title jb))) (\<lambda>_. ret False)))
          (ceilingOutcome 8 False)"
        by (simp only: not_True_eq_False if_False)
           (rule emits_afterLoop_ceiling [OF assms(1,3)])
    qed
  qed
qed

lemma applyToSeekJob_ceiling:
  assumes "noPageErrors d" and "applyTriggerVisible d" and "endlessContinueForm d"
  shows "emits (applyToSeekJob d jb) (ceilingOutcome 8 False)"
proof -
  have tc: "emits (tryCatch (applyAttempt d jb) onError) (ceilingOutcome 8 False)"
  proof (rule emits_tryCatch [OF applyAttempt_ceiling [OF assms] emits_onError])
    fix x n
    assume "ceilingOutcome 8 False (Ok x) n"
    then show "ceilingOutcome 8 False (Ok x) n" .
  next
    fix e n and r :: "bool result" and m
    assume "ceilingOutcome 8 False (Throw e) n"
    then show "ceilingOutcome 8 False r (n @ m)"
      by (simp add: ceilingOutcome_def)
  qed
  have lg: "emits (consoleLog m) (\<lambda>r. list_all quietEvent)" if "quietEvent (Console m)"
    for m :: logMsg
    by (rule only_consoleLog) (rule that)
  show ?thesis
    unfolding applyToSeekJob_def
    by (intro ceiling_after_quiet [where P = "\<lambda>_. True"] lg yields_consoleLog tc)
       (simp_all add: quietEvent_def)
qed


lemma ex_scripts_next:
  "skipCoverLetterScript (exPage [exButton ''Next'' True, exButton ''Continue'' False]) = (False, None)"
  "extractQuestionsScript (exPage [exButton ''Next'' True, exButton ''Continue'' False]) = ([], None)"
  "clickButtonByTextScript continueTexts (exPage [exButton ''Next'' True, exButton ''Continue'' False])
     = (False, None)"
  "submitScript (exPage [exButton ''Next'' True, exButton ''Continue'' False]) = (False, None)"
  by code_simp+

lemma exDriver_noPageErrors: "noPageErrors (exDriver pg (Ok ()))"
  by (simp add: noPageErrors_def)

lemma exDriver_applyTriggerVisible: "applyTriggerVisible (exDriver pg g)"
  by (simp add: applyTriggerVisible_def applySelectors_def)

text \<open>
  C1, as stated, fails: a form may offer an enabled continue control that the continue
  trigger does not pick. On a page with a disabled \<open>Next\<close> button in front of an enabled
  \<open>Continue\<close> button, with no page error and no completion signal, the first match is the
  disabled button: nothing is clicked, and the controller gives up in its first step.
\<close>

theorem step_ceiling_first_match_disabled_counterexample:
  "noPageErrors (exDriver (exPage [exButton ''Next'' True, exButton ''Continue'' False]) (Ok ()))
   \<and> applyTriggerVisible
        (exDriver (exPage [exButton ''Next'' True, exButton ''Continue'' False]) (Ok ()))
   \<and> fst (isDoneScript (exPage [exButton ''Next'' True, exButton ''Continue'' False])) = False
   \<and> spec_offersEnabledContinue (exPage [exButton ''Next'' True, exButton ''Continue'' False])
   \<and> applyToSeekJob
        (exDriver (exPage [exButton ''Next'' True, exButton ''Continue'' False]) (Ok ()))
        (exJob ''https://www.seek.com.au/job/1'' False) exWorld
      = (Ok False,
         \<lparr>browser = (), savedAnswers = [],
          trace = [Console (LogApplying ''Developer'' ''Acme''),
                   Console (LogJobInfo ''Sydney'' ''Hybrid'' ''Not listed''),
                   Goto ''https://www.seek.com.au/job/1'', WaitForTimeout 2000,
                   IsVisible ''[data-automation=\"job-detail-apply\"]'', Console LogClickingApply,
                   LocatorClick ''[data-automation=\"job-detail-apply\"]'', WaitForTimeout 3000,
                   WaitForTimeout 2000, Console (LogStep 1), Evaluate IsDone,
                   Evaluate SkipCoverLetter, Evaluate ExtractQuestions, Evaluate ScrollToBottom,
                   Dom ScrollToBottom ScrollTo, WaitForTimeout 1500,
                   Evaluate (ClickButtonByText continueTexts), Evaluate ClickSubmit,
                   Console LogNoActionableButton,
                   Console (LogCouldNotComplete ''Developer'')]\<rparr>)"
proof -
  have "spec_offersEnabledContinue (exPage [exButton ''Next'' True, exButton ''Continue'' False])"
    by code_simp
  moreover have "applyToSeekJob
        (exDriver (exPage [exButton ''Next'' True, exButton ''Continue'' False]) (Ok ()))
        (exJob ''https://www.seek.com.au/job/1'' False) exWorld
      = (Ok False,
         \<lparr>browser = (), savedAnswers = [],
          trace = [Console (LogApplying ''Developer'' ''Acme''),
                   Console (LogJobInfo ''Sydney'' ''Hybrid'' ''Not listed''),
                   Goto ''https://www.seek.com.au/job/1'', WaitForTimeout 2000,
                   IsVisible ''[data-automation=\"job-detail-apply\"]'', Console LogClickingApply,
                   LocatorClick ''[data-automation=\"job-detail-apply\"]'', WaitForTimeout 3000,
                   WaitForTimeout 2000, Console (LogStep 1), Evaluate IsDone,
                   Evaluate SkipCoverLetter, Evaluate ExtractQuestions, Evaluate ScrollToBottom,
                   Dom ScrollToBottom ScrollTo, WaitForTimeout 1500,
                   Evaluate (ClickButtonByText continueTexts), Evaluate ClickSubmit,
                   Console LogNoActionableButton,
                   Console (LogCouldNotComplete ''Developer'')]\<rparr>)"
    by (simp add: applyToSeekJob_def applyAttempt_def applySelectors_def
      stepLoop.simps [of _ _ "Suc 0"] stepBody_def prepareStep_def advanceStep_def
      answerScreeningQuestions_def run_defs ex_scripts_both(1) ex_scripts_next scrollScript_def
      exWorld_def exJob_def)
  ultimately show ?thesis
    by (simp add: exDriver_noPageErrors exDriver_applyTriggerVisible ex_scripts_both(1))
qed

text \<open>
  C1, amended. For every job the controller starts at most 8 steps and makes at most 8
  continue clicks. When no page operation fails, an apply trigger is visible, the form never
  shows a completion signal and the first continue control of every page it shows is
  enabled, the controller starts exactly 8 steps, clicks continue exactly 8 times, and
  returns \<open>false\<close>.
\<close>

theorem step_ceiling:
  "(\<exists>new. trace (snd (applyToSeekJob d jb w)) = trace w @ new
      \<and> length (filter isStepStart new) \<le> 8 \<and> length (filter isContinueClick new) \<le> 8)
   \<and> (noPageErrors d \<and> applyTriggerVisible d \<and> endlessContinueForm d \<longrightarrow>
        (\<exists>new. trace (snd (applyToSeekJob d jb w)) = trace w @ new
           \<and> fst (applyToSeekJob d jb w) = Ok False
           \<and> length (filter isStepStart new) = 8 \<and> length (filter isContinueClick new) = 8))"
proof (intro conjI impI)
  from emits_applyToSeekJob [of d jb] obtain new
    where "trace (snd (applyToSeekJob d jb w)) = trace w @ new"
      and "runOutcome 8 (fst (applyToSeekJob d jb w) = Ok True) new"
    unfolding emits_def by blast
  then show "\<exists>new. trace (snd (applyToSeekJob d jb w)) = trace w @ new
      \<and> length (filter isStepStart new) \<le> 8 \<and> length (filter isContinueClick new) \<le> 8"
    unfolding runOutcome_def by blast
next
  assume "noPageErrors d \<and> applyTriggerVisible d \<and> endlessContinueForm d"
  then have h: "noPageErrors d" "applyTriggerVisible d" "endlessContinueForm d"
    by simp_all
  from applyToSeekJob_ceiling [OF h, of jb] obtain new
    where "trace (snd (applyToSeekJob d jb w)) = trace w @ new"
      and "ceilingOutcome 8 False (fst (applyToSeekJob d jb w)) new"
    unfolding emits_def by blast
  then show "\<exists>new. trace (snd (applyToSeekJob d jb w)) = trace w @ new
           \<and> fst (applyToSeekJob d jb w) = Ok False
           \<and> length (filter isStepStart new) = 8 \<and> length (filter isContinueClick new) = 8"
    unfolding ceilingOutcome_def by blast
qed

lemma exDriver_endless:
  "endlessContinueForm (exDriver (exPage [exButton ''Continue'' False]) (Ok ()))"
proof -
  have "firstContinueEnabled (exPage [exButton ''Continue'' False])"
    by code_simp
  then show ?thesis
    by (simp add: endlessContinueForm_def ex_scripts_both(1))
qed

theorem step_ceiling_witness:
  "noPageErrors (exDriver (exPage [exButton ''Continue'' False]) (Ok ()))
   \<and> applyTriggerVisible (exDriver (exPage [exButton ''Continue'' False]) (Ok ()))
   \<and> endlessContinueForm (exDriver (exPage [exButton ''Continue'' False]) (Ok ()))
   \<and> fst (applyToSeekJob (exDriver (exPage [exButton ''Continue'' False]) (Ok ()))
        (exJob ''https://www.seek.com.au/job/1'' False) exWorld) = Ok False
   \<and> length (filter isContinueClick
        (trace (snd (applyToSeekJob (exDriver (exPage [exButton ''Continue'' False]) (Ok ()))
           (exJob ''https://www.seek.com.au/job/1'' False) exWorld)))) = 8
   \<and> length (filter isStepStart
        (trace (snd (applyToSeekJob (exDriver (exPage [exButton ''Continue'' False]) (Ok ()))
           (exJob ''https://www.seek.com.au/job/1'' False) exWorld)))) = 8"
proof -
  let ?d = "exDriver (exPage [exButton ''Continue'' False]) (Ok ())"
  let ?run = "applyToSeekJob ?d (exJob ''https://www.seek.com.au/job/1'' False) exWorld"
  have h: "noPageErrors ?d \<and> applyTriggerVisible ?d \<and> endlessContinueForm ?d"
    by (simp add: exDriver_noPageErrors exDriver_applyTriggerVisible exDriver_endless)
  with step_ceiling [of ?d "exJob ''https://www.seek.com.au/job/1'' False" exWorld]
  obtain new where n: "trace (snd ?run) = trace exWorld @ new"
    and r: "fst ?run = Ok False"
    and c: "length (filter isStepStart new) = 8" "length (filter isContinueClick new) = 8"
    by blast
  from n have "new = trace (snd ?run)" by (simp add: exWorld_def)
  with h r c show ?thesis by simp
qed

end
